theory Spec2Isabelle
  imports Main "HOL-Library.Sublist"
begin

section \<open>The persistence layer of finch (persist.go)\<close>

text \<open>
  persist.go is a thin layer of Go functions over \<open>database/sql\<close> and an SQLite file.
  The theory models the stored tables, the connection handle with the outcomes a driver
  call can have, and then each Go function statement by statement.
\<close>

subsection \<open>Stored rows\<close>

record users_row =
  users_id :: int
  users_username :: string
  users_password :: string

record channel_row =
  channel_id :: int
  channel_user_id :: int
  channel_slug :: string
  channel_label :: string

record post_row =
  post_id :: int
  post_uuid :: string
  post_user_id :: int
  post_body :: string
  post_posted :: int

record postchannel_row =
  postchannel_post_id :: int
  postchannel_channel_id :: int

text \<open>A table is the list of its rows in rowid order, oldest first.\<close>

record tables =
  users :: "users_row list"
  channel :: "channel_row list"
  post :: "post_row list"
  postchannel :: "postchannel_row list"

subsection \<open>Errors and outcomes\<close>

text \<open>
  \<open>ErrNoRows\<close> is \<open>sql.ErrNoRows\<close>, \<open>ErrConstraint\<close> a violated uniqueness constraint,
  \<open>ErrDriver\<close> any other failure the driver reports (locked file, I/O error, ...),
  \<open>ErrUUID\<close> a failure of \<open>uuid.NewV4\<close>.
\<close>

datatype error = ErrNoRows | ErrConstraint | ErrDriver | ErrUUID

text \<open>
  A Go function either returns, or ends the process through \<open>log.Fatal\<close>, or panics on a
  nil pointer.
\<close>

datatype 'a outcome = Return 'a | Fatal | Panic

subsection \<open>The connection handle\<close>

text \<open>
  \<open>Persistence\<close> wraps the \<open>*sql.DB\<close> handle. Its state is the committed content of the
  file, the number of transactions that were begun and not yet finished, and the failures
  the driver is going to report: \<open>fatal_faults\<close> is read by the calls whose error the code
  answers with \<open>log.Fatal\<close> (\<open>Begin\<close>, \<open>Prepare\<close>, \<open>Query\<close>), \<open>stmt_faults\<close> by the calls
  whose error the code receives as a value (\<open>Exec\<close>, \<open>QueryRow(...).Scan\<close>). Each call
  consumes one entry; \<open>True\<close> makes it fail with \<open>ErrDriver\<close>, an exhausted list means no
  further failure.
\<close>

record Persistence =
  Database :: tables
  open_tx :: nat
  fatal_faults :: "bool list"
  stmt_faults :: "bool list"

definition fatal_fault :: "Persistence \<Rightarrow> bool \<times> Persistence" where
  "fatal_fault p =
     (case fatal_faults p of
        [] \<Rightarrow> (False, p)
      | b # bs \<Rightarrow> (b, p\<lparr>fatal_faults := bs\<rparr>))"

definition stmt_fault :: "Persistence \<Rightarrow> bool \<times> Persistence" where
  "stmt_fault p =
     (case stmt_faults p of
        [] \<Rightarrow> (False, p)
      | b # bs \<Rightarrow> (b, p\<lparr>stmt_faults := bs\<rparr>))"

text \<open>
  A transaction \<open>*sql.Tx\<close> works on its own connection: it holds a working copy of the
  tables, which \<open>Commit\<close> makes the committed content. A statement that is run through
  \<open>p.Database\<close> while the transaction is open uses another connection of the pool and reads
  the committed content only.
\<close>

record Tx =
  work :: tables

definition Begin :: "Persistence \<Rightarrow> (error + Tx) \<times> Persistence" where
  "Begin p =
     (case fatal_fault p of
        (True, p') \<Rightarrow> (Inl ErrDriver, p')
      | (False, p') \<Rightarrow> (Inr \<lparr>work = Database p'\<rparr>, p'\<lparr>open_tx := Suc (open_tx p')\<rparr>))"

definition Prepare :: "Persistence \<Rightarrow> error option \<times> Persistence" where
  "Prepare p =
     (case fatal_fault p of
        (True, p') \<Rightarrow> (Some ErrDriver, p')
      | (False, p') \<Rightarrow> (None, p'))"

text \<open>
  \<open>stmt.Exec\<close> inside a transaction: the statement is a function on the tables that either
  fails or gives the new rowid and the new tables.
\<close>

definition Exec ::
  "(tables \<Rightarrow> error + int \<times> tables) \<Rightarrow> Tx \<Rightarrow> Persistence \<Rightarrow> (error + int) \<times> Tx \<times> Persistence" where
  "Exec stmt tx p =
     (case stmt_fault p of
        (True, p') \<Rightarrow> (Inl ErrDriver, tx, p')
      | (False, p') \<Rightarrow>
          (case stmt (work tx) of
             Inl e \<Rightarrow> (Inl e, tx, p')
           | Inr (i, t') \<Rightarrow> (Inr i, tx\<lparr>work := t'\<rparr>, p')))"

text \<open>The go-sqlite3 result carries the rowid; the branch for its error stays in \<open>AddPost\<close>.\<close>

definition LastInsertId :: "int \<Rightarrow> error + int" where
  "LastInsertId r = Inr r"

text \<open>The code ignores what \<open>tx.Commit()\<close> returns; a commit is taken to succeed.\<close>

definition Commit :: "Tx \<Rightarrow> Persistence \<Rightarrow> Persistence" where
  "Commit tx p = p\<lparr>Database := work tx, open_tx := open_tx p - 1\<rparr>"

text \<open>\<open>stmt.QueryRow(...).Scan(...)\<close> outside a transaction: the first row of the result.\<close>

definition QueryRow :: "(tables \<Rightarrow> 'a list) \<Rightarrow> Persistence \<Rightarrow> (error + 'a) \<times> Persistence" where
  "QueryRow q p =
     (case stmt_fault p of
        (True, p') \<Rightarrow> (Inl ErrDriver, p')
      | (False, p') \<Rightarrow>
          (case q (Database p') of
             [] \<Rightarrow> (Inl ErrNoRows, p')
           | r # _ \<Rightarrow> (Inr r, p')))"

text \<open>\<open>stmt.Query(...)\<close> outside a transaction: all rows of the result.\<close>

definition Query :: "(tables \<Rightarrow> 'a list) \<Rightarrow> Persistence \<Rightarrow> (error + 'a list) \<times> Persistence" where
  "Query q p =
     (case fatal_fault p of
        (True, p') \<Rightarrow> (Inl ErrDriver, p')
      | (False, p') \<Rightarrow> (Inr (q (Database p')), p'))"

subsection \<open>The SQL statements\<close>

text \<open>
  schema.sql, which declares the four tables, is not among the sources; the columns are
  those the statements of persist.go name. The constraints are taken from the
  specification: section 6 gives \<open>users(id, username unique, password)\<close>,
  \<open>channel(id, user_id, slug, label)\<close> with uniqueness on \<open>(user_id, slug)\<close>,
  \<open>post(id, uuid unique, user_id, body, posted)\<close> and the join table
  \<open>postchannel(post_id, channel_id)\<close>, and section 3 says that an identifier is unique
  and generated by storage.
\<close>

text \<open>
  Modelled from the spec: the identifier that storage generates for a new row (schema.sql
  is missing). It is one more than the largest identifier of the table, as SQLite does.
\<close>

definition next_id :: "int list \<Rightarrow> int" where
  "next_id ids = 1 + fold max ids 0"

text \<open>
  Modelled from the spec: \<open>username\<close> is unique in \<open>users\<close> (schema.sql is missing).
  \<open>insert into users(username, password) values(?, ?)\<close>
\<close>

definition insert_users :: "string \<Rightarrow> string \<Rightarrow> tables \<Rightarrow> error + int \<times> tables" where
  "insert_users username password t =
     (if username \<in> set (map users_username (users t)) then Inl ErrConstraint
      else let i = next_id (map users_id (users t))
           in Inr (i, t\<lparr>users := users t @
                [\<lparr>users_id = i, users_username = username, users_password = password\<rparr>]\<rparr>))"

text \<open>The pairs of user and slug of the channel table, in the order of its rows.\<close>

definition channel_keys :: "tables \<Rightarrow> (int \<times> string) list" where
  "channel_keys t = map (\<lambda>r. (channel_user_id r, channel_slug r)) (channel t)"

text \<open>
  Modelled from the spec: \<open>(user_id, slug)\<close> is unique in \<open>channel\<close> (schema.sql is
  missing). \<open>insert into channel(user_id, slug, label) values(?, ?, ?)\<close>
\<close>

definition insert_channel :: "int \<Rightarrow> string \<Rightarrow> string \<Rightarrow> tables \<Rightarrow> error + int \<times> tables" where
  "insert_channel user_id slug label t =
     (if (user_id, slug) \<in> set (channel_keys t) then Inl ErrConstraint
      else let i = next_id (map channel_id (channel t))
           in Inr (i, t\<lparr>channel := channel t @
                [\<lparr>channel_id = i, channel_user_id = user_id, channel_slug = slug,
                  channel_label = label\<rparr>]\<rparr>))"

text \<open>
  Modelled from the spec: \<open>uuid\<close> is unique in \<open>post\<close> (schema.sql is missing).
  \<open>insert into post(user_id, uuid, body, posted) values(?, ?, ?, ?)\<close>
\<close>

definition insert_post :: "int \<Rightarrow> string \<Rightarrow> string \<Rightarrow> int \<Rightarrow> tables \<Rightarrow> error + int \<times> tables" where
  "insert_post user_id uu body posted t =
     (if uu \<in> set (map post_uuid (post t)) then Inl ErrConstraint
      else let i = next_id (map post_id (post t))
           in Inr (i, t\<lparr>post := post t @
                [\<lparr>post_id = i, post_uuid = uu, post_user_id = user_id, post_body = body,
                  post_posted = posted\<rparr>]\<rparr>))"

text \<open>
  Modelled from the spec: \<open>postchannel\<close> is a join table with no constraint (schema.sql
  is missing); its rowid, which the code never reads, is the number of the row.
  \<open>insert into postchannel (post_id, channel_id) values (?, ?)\<close>
\<close>

definition insert_postchannel :: "int \<Rightarrow> int \<Rightarrow> tables \<Rightarrow> error + int \<times> tables" where
  "insert_postchannel pid cid t =
     Inr (int (length (postchannel t)) + 1,
          t\<lparr>postchannel := postchannel t @
             [\<lparr>postchannel_post_id = pid, postchannel_channel_id = cid\<rparr>]\<rparr>)"

text \<open>\<open>select id, password from users where username = ?\<close>\<close>

definition select_users_by_username :: "string \<Rightarrow> tables \<Rightarrow> (int \<times> string) list" where
  "select_users_by_username username t =
     map (\<lambda>r. (users_id r, users_password r))
       (filter (\<lambda>r. users_username r = username) (users t))"

text \<open>\<open>select username, password from users where id = ?\<close>\<close>

definition select_users_by_id :: "int \<Rightarrow> tables \<Rightarrow> (string \<times> string) list" where
  "select_users_by_id i t =
     map (\<lambda>r. (users_username r, users_password r))
       (filter (\<lambda>r. users_id r = i) (users t))"

text \<open>\<open>select id, slug, label from channel where user_id = ?\<close>\<close>

definition select_channel_by_user :: "int \<Rightarrow> tables \<Rightarrow> (int \<times> string \<times> string) list" where
  "select_channel_by_user uid t =
     map (\<lambda>r. (channel_id r, channel_slug r, channel_label r))
       (filter (\<lambda>r. channel_user_id r = uid) (channel t))"

text \<open>\<open>select id, label from channel where user_id = ? AND slug = ?\<close>\<close>

definition select_channel_by_user_slug :: "int \<Rightarrow> string \<Rightarrow> tables \<Rightarrow> (int \<times> string) list" where
  "select_channel_by_user_slug uid slug t =
     map (\<lambda>r. (channel_id r, channel_label r))
       (filter (\<lambda>r. channel_user_id r = uid \<and> channel_slug r = slug) (channel t))"

text \<open>\<open>select user_id, uuid, body, posted from post where id = ?\<close>\<close>

definition select_post_by_id :: "int \<Rightarrow> tables \<Rightarrow> (int \<times> string \<times> string \<times> int) list" where
  "select_post_by_id i t =
     map (\<lambda>r. (post_user_id r, post_uuid r, post_body r, post_posted r))
       (filter (\<lambda>r. post_id r = i) (post t))"

text \<open>
  \<open>select id, uuid, user_id, body, posted from post order by posted desc limit ? offset ?\<close>.
  Rows with the same timestamp keep their rowid order. SQLite reads a negative limit as no
  limit and a negative offset as 0.
\<close>

definition select_post_page :: "int \<Rightarrow> int \<Rightarrow> tables \<Rightarrow> post_row list" where
  "select_post_page limit offset t =
     (let sorted_rows = sort_key (\<lambda>r. - post_posted r) (post t);
          rest = drop (nat offset) sorted_rows
      in if limit < 0 then rest else take (nat limit) rest)"

subsection \<open>The Go structs\<close>

text \<open>
  \<open>User\<close> is declared outside persist.go; its three fields are the ones persist.go fills.
  A pointer is an option, \<open>None\<close> for nil.
\<close>

record User =
  User_Id :: int
  User_Username :: string
  User_Password :: string

record Channel =
  Channel_Id :: int
  Channel_User :: "User option"
  Channel_Slug :: string
  Channel_Label :: string

record Post =
  Post_Id :: int
  Post_UUID :: string
  Post_User :: "User option"
  Post_Body :: string
  Post_Posted :: int

subsection \<open>Users\<close>

definition GetUser :: "Persistence \<Rightarrow> string \<Rightarrow> (User option \<times> bool) outcome \<times> Persistence" where
  "GetUser p username =
     (case Prepare p of
        (Some err, p1) \<Rightarrow> (Fatal, p1)
      | (None, p1) \<Rightarrow>
          (case QueryRow (select_users_by_username username) p1 of
             (Inl err, p2) \<Rightarrow> (Return (None, False), p2)
           | (Inr (i, password), p2) \<Rightarrow>
               (Return (Some \<lparr>User_Id = i, User_Username = username,
                               User_Password = password\<rparr>, True), p2)))"

definition GetUserById ::
  "Persistence \<Rightarrow> int \<Rightarrow> (User option \<times> error option) outcome \<times> Persistence" where
  "GetUserById p i =
     (case Prepare p of
        (Some err, p1) \<Rightarrow> (Fatal, p1)
      | (None, p1) \<Rightarrow>
          (case QueryRow (select_users_by_id i) p1 of
             (Inl err, p2) \<Rightarrow> (Return (None, Some err), p2)
           | (Inr (username, password), p2) \<Rightarrow>
               (Return (Some \<lparr>User_Id = i, User_Username = username,
                               User_Password = password\<rparr>, None), p2)))"

text \<open>
  \<open>SetPassword\<close>, the password hashing of \<open>User\<close>, is outside persist.go and is a parameter.
  The error of \<open>stmt.Exec\<close> is assigned and never read.
\<close>

definition CreateUser ::
  "(string \<Rightarrow> string) \<Rightarrow> Persistence \<Rightarrow> string \<Rightarrow> string
     \<Rightarrow> (User option \<times> error option) outcome \<times> Persistence" where
  "CreateUser SetPassword p username password =
     (let encpassword = SetPassword password in
      case Begin p of
        (Inl err, p1) \<Rightarrow> (Fatal, p1)
      | (Inr tx, p1) \<Rightarrow>
          (case Prepare p1 of
             (Some err, p2) \<Rightarrow> (Fatal, p2)
           | (None, p2) \<Rightarrow>
               (case Exec (insert_users username encpassword) tx p2 of
                  (_, tx1, p3) \<Rightarrow>
                    (case GetUser (Commit tx1 p3) username of
                       (Return (u, _), p4) \<Rightarrow> (Return (u, None), p4)
                     | (Fatal, p4) \<Rightarrow> (Fatal, p4)
                     | (Panic, p4) \<Rightarrow> (Panic, p4)))))"

subsection \<open>Channels\<close>

text \<open>\<open>[]*Channel\<close> is a list of pointers: \<open>Channel option list\<close>.\<close>

definition UserChannels :: "Persistence \<Rightarrow> User \<Rightarrow> Channel option list outcome \<times> Persistence" where
  "UserChannels p u =
     (case Prepare p of
        (Some err, p1) \<Rightarrow> (Fatal, p1)
      | (None, p1) \<Rightarrow>
          (case Query (select_channel_by_user (User_Id u)) p1 of
             (Inl err, p2) \<Rightarrow> (Fatal, p2)
           | (Inr rows, p2) \<Rightarrow>
               (Return (map (\<lambda>(i, slug, label).
                   Some \<lparr>Channel_Id = i, Channel_User = None, Channel_Slug = slug,
                         Channel_Label = label\<rparr>) rows), p2)))"

definition GetChannel ::
  "Persistence \<Rightarrow> User \<Rightarrow> string \<Rightarrow> (Channel option \<times> error option) outcome \<times> Persistence" where
  "GetChannel p u slug =
     (case Prepare p of
        (Some err, p1) \<Rightarrow> (Fatal, p1)
      | (None, p1) \<Rightarrow>
          (case QueryRow (select_channel_by_user_slug (User_Id u) slug) p1 of
             (Inl err, p2) \<Rightarrow> (Return (None, Some err), p2)
           | (Inr (i, label), p2) \<Rightarrow>
               (Return (Some \<lparr>Channel_Id = i, Channel_User = Some u, Channel_Slug = slug,
                               Channel_Label = label\<rparr>, None), p2)))"

text \<open>
  \<open>strings.Replace(label, " ", "_", -1)\<close>: strings are byte lists, and every byte that is
  a space becomes an underscore.
\<close>

definition Replace_space :: "string \<Rightarrow> string" where
  "Replace_space s = map (\<lambda>c. if c = CHR '' '' then CHR ''_'' else c) s"

text \<open>
  \<open>strings.ToLower\<close> belongs to the Go library, not to the repository: it lowers every
  Unicode letter and rewrites invalid UTF-8. The model takes it as the parameter
  \<open>ToLower\<close> of the functions that call it, so that nothing is assumed of it.
\<close>

definition slug_of :: "(string \<Rightarrow> string) \<Rightarrow> string \<Rightarrow> string" where
  "slug_of ToLower label = ToLower (Replace_space label)"

text \<open>
  The loop of \<open>AddChannels\<close> (lines 138 to 148). The error of \<open>stmt.Exec\<close> is assigned and
  never read; \<open>c\<close> is appended when \<open>GetChannel\<close> returned an error.
\<close>

fun AddChannels_loop ::
  "(string \<Rightarrow> string) \<Rightarrow> User \<Rightarrow> string list \<Rightarrow> Tx \<Rightarrow> Persistence \<Rightarrow> Channel option list
     \<Rightarrow> (Channel option list \<times> Tx) outcome \<times> Persistence" where
  "AddChannels_loop ToLower u [] tx p created = (Return (created, tx), p)"
| "AddChannels_loop ToLower u (label # names) tx p created =
     (if label = [] then AddChannels_loop ToLower u names tx p created
      else
        let slug = slug_of ToLower label in
        case Exec (insert_channel (User_Id u) slug label) tx p of
          (_, tx1, p1) \<Rightarrow>
            (case GetChannel p1 u slug of
               (Return (c, err), p2) \<Rightarrow>
                 AddChannels_loop ToLower u names tx1 p2
                   (if err \<noteq> None then created @ [c] else created)
             | (Fatal, p2) \<Rightarrow> (Fatal, p2)
             | (Panic, p2) \<Rightarrow> (Panic, p2)))"

definition AddChannels ::
  "(string \<Rightarrow> string) \<Rightarrow> Persistence \<Rightarrow> User \<Rightarrow> string list
     \<Rightarrow> (Channel option list \<times> error option) outcome \<times> Persistence" where
  "AddChannels ToLower p u names =
     (case Begin p of
        (Inl err, p1) \<Rightarrow> (Fatal, p1)
      | (Inr tx, p1) \<Rightarrow>
          (case Prepare p1 of
             (Some err, p2) \<Rightarrow> (Fatal, p2)
           | (None, p2) \<Rightarrow>
               (case AddChannels_loop ToLower u names tx p2 [] of
                  (Return (created, tx1), p3) \<Rightarrow> (Return (created, None), Commit tx1 p3)
                | (Fatal, p3) \<Rightarrow> (Fatal, p3)
                | (Panic, p3) \<Rightarrow> (Panic, p3))))"

subsection \<open>Posts\<close>

definition GetPost ::
  "Persistence \<Rightarrow> int \<Rightarrow> (Post option \<times> error option) outcome \<times> Persistence" where
  "GetPost p i =
     (case Prepare p of
        (Some err, p1) \<Rightarrow> (Fatal, p1)
      | (None, p1) \<Rightarrow>
          (case QueryRow (select_post_by_id i) p1 of
             (Inl err, p2) \<Rightarrow> (Return (None, Some err), p2)
           | (Inr (user_id, uu, body, posted), p2) \<Rightarrow>
               (case GetUserById p2 user_id of
                  (Return (u, Some err), p3) \<Rightarrow> (Return (None, Some err), p3)
                | (Return (u, None), p3) \<Rightarrow>
                    (Return (Some \<lparr>Post_Id = i, Post_UUID = uu, Post_User = u,
                                    Post_Body = body, Post_Posted = posted\<rparr>, None), p3)
                | (Fatal, p3) \<Rightarrow> (Fatal, p3)
                | (Panic, p3) \<Rightarrow> (Panic, p3))))"

text \<open>The loop of \<open>GetAllPosts\<close> over the fetched rows (lines 245 to 258).\<close>

fun GetAllPosts_loop ::
  "post_row list \<Rightarrow> Persistence \<Rightarrow> Post option list \<Rightarrow> Post option list outcome \<times> Persistence" where
  "GetAllPosts_loop [] p posts = (Return posts, p)"
| "GetAllPosts_loop (r # rows) p posts =
     (case GetUserById p (post_user_id r) of
        (Return (u, Some err), p1) \<Rightarrow> GetAllPosts_loop rows p1 posts
      | (Return (u, None), p1) \<Rightarrow>
          GetAllPosts_loop rows p1
            (posts @ [Some \<lparr>Post_Id = post_id r, Post_UUID = post_uuid r, Post_User = u,
                             Post_Body = post_body r, Post_Posted = post_posted r\<rparr>])
      | (Fatal, p1) \<Rightarrow> (Fatal, p1)
      | (Panic, p1) \<Rightarrow> (Panic, p1))"

definition GetAllPosts ::
  "Persistence \<Rightarrow> int \<Rightarrow> int \<Rightarrow> (Post option list \<times> error option) outcome \<times> Persistence" where
  "GetAllPosts p limit offset =
     (case Prepare p of
        (Some err, p1) \<Rightarrow> (Fatal, p1)
      | (None, p1) \<Rightarrow>
          (case Query (select_post_page limit offset) p1 of
             (Inl err, p2) \<Rightarrow> (Fatal, p2)
           | (Inr rows, p2) \<Rightarrow>
               (case GetAllPosts_loop rows p2 [] of
                  (Return posts, p3) \<Rightarrow> (Return (posts, None), p3)
                | (Fatal, p3) \<Rightarrow> (Fatal, p3)
                | (Panic, p3) \<Rightarrow> (Panic, p3))))"

text \<open>
  The loop of \<open>AddPost\<close> over the channels (lines 333 to 338): \<open>c.Id\<close> panics on a nil
  pointer, an error of \<open>cstmt.Exec\<close> is logged and the loop goes on.
\<close>

fun AddPost_loop ::
  "int \<Rightarrow> Channel option list \<Rightarrow> Tx \<Rightarrow> Persistence \<Rightarrow> Tx outcome \<times> Persistence" where
  "AddPost_loop i [] tx p = (Return tx, p)"
| "AddPost_loop i (None # channels) tx p = (Panic, p)"
| "AddPost_loop i (Some c # channels) tx p =
     (case Exec (insert_postchannel i (Channel_Id c)) tx p of
        (_, tx1, p1) \<Rightarrow> AddPost_loop i channels tx1 p1)"

text \<open>
  \<open>uuid.NewV4()\<close> and \<open>time.Now().Unix()\<close> are outside the repository: what they return is
  given by the parameters \<open>u4\<close> and \<open>now\<close>.
\<close>

definition AddPost ::
  "Persistence \<Rightarrow> User \<Rightarrow> string \<Rightarrow> Channel option list \<Rightarrow> error + string \<Rightarrow> int
     \<Rightarrow> (Post option \<times> error option) outcome \<times> Persistence" where
  "AddPost p u body channels u4 now =
     (case Begin p of
        (Inl err, p1) \<Rightarrow> (Fatal, p1)
      | (Inr tx, p1) \<Rightarrow>
          (case u4 of
             Inl err \<Rightarrow> (Return (None, Some err), p1)
           | Inr uu \<Rightarrow>
               (case Prepare p1 of
                  (Some err, p2) \<Rightarrow> (Fatal, p2)
                | (None, p2) \<Rightarrow>
                    (case Exec (insert_post (User_Id u) uu body now) tx p2 of
                       (Inl err, tx1, p3) \<Rightarrow> (Return (None, Some err), p3)
                     | (Inr r, tx1, p3) \<Rightarrow>
                         (case LastInsertId r of
                            Inl err \<Rightarrow> (Return (None, Some err), p3)
                          | Inr i \<Rightarrow>
                              (case Prepare p3 of
                                 (Some err, p4) \<Rightarrow> (Fatal, p4)
                               | (None, p4) \<Rightarrow>
                                   (case AddPost_loop i channels tx1 p4 of
                                      (Return tx2, p5) \<Rightarrow>
                                        (case GetPost (Commit tx2 p5) i of
                                           (Return (pst, Some err), p6) \<Rightarrow>
                                             (Return (None, Some err), p6)
                                         | (Return (pst, None), p6) \<Rightarrow>
                                             (Return (pst, None), p6)
                                         | (Fatal, p6) \<Rightarrow> (Fatal, p6)
                                         | (Panic, p6) \<Rightarrow> (Panic, p6))
                                    | (Fatal, p5) \<Rightarrow> (Fatal, p5)
                                    | (Panic, p5) \<Rightarrow> (Panic, p5))))))))"

subsection \<open>Vocabulary of the statements\<close>

text \<open>The \<open>Channel\<close> that \<open>UserChannels\<close> builds from a row of the table.\<close>

definition Channel_of_row :: "channel_row \<Rightarrow> Channel" where
  "Channel_of_row r = \<lparr>Channel_Id = channel_id r, Channel_User = None,
                        Channel_Slug = channel_slug r, Channel_Label = channel_label r\<rparr>"

text \<open>Identifier and timestamp, of a returned post and of a stored row.\<close>

definition post_key :: "Post \<Rightarrow> int \<times> int" where
  "post_key x = (Post_Id x, Post_Posted x)"

definition row_key :: "post_row \<Rightarrow> int \<times> int" where
  "row_key r = (post_id r, post_posted r)"

text \<open>
  \<open>surviving xs fs\<close> are the entries of \<open>xs\<close> whose call does not fail when the driver
  fails as \<open>fs\<close> says, one entry of \<open>fs\<close> for each call and none once \<open>fs\<close> is used up.
\<close>

fun surviving :: "'a list \<Rightarrow> bool list \<Rightarrow> 'a list" where
  "surviving [] fs = []"
| "surviving (x # xs) [] = x # xs"
| "surviving (x # xs) (f # fs) = (if f then surviving xs fs else x # surviving xs fs)"

text \<open>The join row that \<open>AddPost\<close> writes for a channel.\<close>

definition join_row :: "int \<Rightarrow> Channel \<Rightarrow> postchannel_row" where
  "join_row i c = \<lparr>postchannel_post_id = i, postchannel_channel_id = Channel_Id c\<rparr>"

text \<open>
  What a lookup of \<open>AddChannels\<close> adds to the list \<open>created\<close>: the channel that
  \<open>GetChannel\<close> returned when it returned an error, and nothing when it returned none.
\<close>

definition reported_by ::
  "(Channel option \<times> error option) outcome \<times> Persistence \<Rightarrow> Channel option list" where
  "reported_by res = (case fst res of Return (c, Some err) \<Rightarrow> [c] | _ \<Rightarrow> [])"

text \<open>
  The handle at the lookup for the non-empty label number \<open>k\<close> (from 0) of \<open>AddChannels\<close>:
  the transaction is open, the committed tables are those of the call, \<open>Begin\<close>,
  \<open>tx.Prepare\<close> and the \<open>Prepare\<close> of the \<open>k\<close> lookups before it have each consumed one
  entry of \<open>fatal_faults\<close>, and the statement calls before it, \<open>k + 1\<close> inserts and \<open>k\<close>
  lookups, have each consumed one entry of \<open>stmt_faults\<close>.
\<close>

definition lookup_state :: "Persistence \<Rightarrow> nat \<Rightarrow> Persistence" where
  "lookup_state p k =
     p\<lparr>open_tx := Suc (open_tx p), fatal_faults := drop (k + 2) (fatal_faults p),
       stmt_faults := drop (2 * k + 1) (stmt_faults p)\<rparr>"

text \<open>
  What a fetched row adds to the page of \<open>GetAllPosts\<close>: its post with the user that
  \<open>GetUserById\<close> returned when it returned no error, and nothing when it returned one.
\<close>

definition resolved_post ::
  "post_row \<Rightarrow> (User option \<times> error option) outcome \<times> Persistence \<Rightarrow> Post option list" where
  "resolved_post r res =
     (case fst res of
        Return (u, None) \<Rightarrow>
          [Some \<lparr>Post_Id = post_id r, Post_UUID = post_uuid r, Post_User = u,
                  Post_Body = post_body r, Post_Posted = post_posted r\<rparr>]
      | _ \<Rightarrow> [])"

text \<open>
  The handle at the lookup for the fetched row number \<open>k\<close> (from 0) of \<open>GetAllPosts\<close>:
  \<open>Prepare\<close>, \<open>Query\<close> and the \<open>Prepare\<close> of the \<open>k\<close> lookups before it have each consumed
  one entry of \<open>fatal_faults\<close>, and the \<open>k\<close> lookups before it one entry of \<open>stmt_faults\<close>
  each.
\<close>

definition feed_lookup_state :: "Persistence \<Rightarrow> nat \<Rightarrow> Persistence" where
  "feed_lookup_state p k =
     p\<lparr>fatal_faults := drop (k + 2) (fatal_faults p), stmt_faults := drop k (stmt_faults p)\<rparr>"

subsection \<open>Example data\<close>

text \<open>
  The labels of the examples are strings of bytes below 128. On such a string
  \<open>strings.ToLower\<close> lowers the letters A to Z and leaves the other bytes as they are;
  \<open>ascii_ToLower\<close> does that, and is the value of the parameter \<open>ToLower\<close> in the
  examples only.
\<close>

definition ascii_lower :: "char \<Rightarrow> char" where
  "ascii_lower c =
     (let n = (of_char c :: nat) in if 65 \<le> n \<and> n \<le> 90 then char_of (n + 32) else c)"

definition ascii_ToLower :: "string \<Rightarrow> string" where
  "ascii_ToLower s = map ascii_lower s"

text \<open>
  A database with the user alice and her channel Diary, and a handle on it on which no
  driver call fails.
\<close>

definition alice :: User where
  "alice = \<lparr>User_Id = 1, User_Username = ''alice'', User_Password = ''h1''\<rparr>"

definition example_tables :: tables where
  "example_tables =
     \<lparr>users = [\<lparr>users_id = 1, users_username = ''alice'', users_password = ''h1''\<rparr>],
      channel = [\<lparr>channel_id = 1, channel_user_id = 1, channel_slug = ''diary'',
                  channel_label = ''Diary''\<rparr>],
      post = [], postchannel = []\<rparr>"

definition example_p :: Persistence where
  "example_p = \<lparr>Database = example_tables, open_tx = 0, fatal_faults = [], stmt_faults = []\<rparr>"

definition tech_news_row :: channel_row where
  "tech_news_row = \<lparr>channel_id = 2, channel_user_id = 1, channel_slug = ''tech_news'',
                     channel_label = ''Tech News''\<rparr>"

definition diary_channel :: Channel where
  "diary_channel = \<lparr>Channel_Id = 1, Channel_User = None, Channel_Slug = ''diary'',
                     Channel_Label = ''Diary''\<rparr>"

definition tech_news_channel :: Channel where
  "tech_news_channel = \<lparr>Channel_Id = 2, Channel_User = None, Channel_Slug = ''tech_news'',
                         Channel_Label = ''Tech News''\<rparr>"

definition hello_row :: post_row where
  "hello_row = \<lparr>post_id = 1, post_uuid = ''u1'', post_user_id = 1,
                 post_body = ''hello world'', post_posted = 5\<rparr>"

definition hello_post :: Post where
  "hello_post = \<lparr>Post_Id = 1, Post_UUID = ''u1'', Post_User = Some alice,
                  Post_Body = ''hello world'', Post_Posted = 5\<rparr>"

text \<open>
  A feed of four posts; the second one belongs to user 9, of whom there is no row.
\<close>

definition orphan_row :: post_row where
  "orphan_row = \<lparr>post_id = 2, post_uuid = ''u2'', post_user_id = 9,
                  post_body = ''orphan'', post_posted = 7\<rparr>"

definition third_row :: post_row where
  "third_row = \<lparr>post_id = 3, post_uuid = ''u3'', post_user_id = 1,
                 post_body = ''third'', post_posted = 6\<rparr>"

definition fourth_row :: post_row where
  "fourth_row = \<lparr>post_id = 4, post_uuid = ''u4'', post_user_id = 1,
                  post_body = ''fourth'', post_posted = 4\<rparr>"

definition third_post :: Post where
  "third_post = \<lparr>Post_Id = 3, Post_UUID = ''u3'', Post_User = Some alice,
                  Post_Body = ''third'', Post_Posted = 6\<rparr>"

definition fourth_post :: Post where
  "fourth_post = \<lparr>Post_Id = 4, Post_UUID = ''u4'', Post_User = Some alice,
                   Post_Body = ''fourth'', Post_Posted = 4\<rparr>"

definition feed_p :: Persistence where
  "feed_p = \<lparr>Database = example_tables\<lparr>post := [hello_row, orphan_row, third_row, fourth_row]\<rparr>,
             open_tx = 0, fatal_faults = [], stmt_faults = []\<rparr>"

section \<open>Properties\<close>

subsection \<open>What a driver call leaves unchanged\<close>

lemma fatal_fault_none [simp]: "fatal_faults p = [] \<Longrightarrow> fatal_fault p = (False, p)"
  by (simp add: fatal_fault_def)

lemma stmt_fault_none [simp]: "stmt_faults p = [] \<Longrightarrow> stmt_fault p = (False, p)"
  by (simp add: stmt_fault_def)

lemma stmt_fault_keeps [simp]:
  "Database (snd (stmt_fault p)) = Database p"
  "open_tx (snd (stmt_fault p)) = open_tx p"
  "fatal_faults (snd (stmt_fault p)) = fatal_faults p"
  by (simp_all add: stmt_fault_def split: list.split)

lemma fatal_fault_keeps [simp]:
  "Database (snd (fatal_fault p)) = Database p"
  "open_tx (snd (fatal_fault p)) = open_tx p"
  "stmt_faults (snd (fatal_fault p)) = stmt_faults p"
  by (simp_all add: fatal_fault_def split: list.split)

lemma Prepare_none [simp]: "fatal_faults p = [] \<Longrightarrow> Prepare p = (None, p)"
  by (simp add: Prepare_def)

lemma Begin_none [simp]:
  "fatal_faults p = [] \<Longrightarrow>
   Begin p = (Inr \<lparr>work = Database p\<rparr>, p\<lparr>open_tx := Suc (open_tx p)\<rparr>)"
  by (simp add: Begin_def)

lemma Query_none [simp]: "fatal_faults p = [] \<Longrightarrow> Query q p = (Inr (q (Database p)), p)"
  by (simp add: Query_def)

lemma Exec_state: "Exec stmt tx p = (r, tx1, p1) \<Longrightarrow> p1 = snd (stmt_fault p)"
  by (auto simp: Exec_def split: prod.splits bool.splits sum.splits)

lemma QueryRow_state: "QueryRow q p = (r, p1) \<Longrightarrow> p1 = snd (stmt_fault p)"
  by (auto simp: QueryRow_def split: prod.splits bool.splits list.splits)

lemma Prepare_state: "Prepare p = (r, p1) \<Longrightarrow> p1 = snd (fatal_fault p)"
  by (auto simp: Prepare_def split: prod.splits bool.splits)

text \<open>
  A lookup changes neither the committed tables nor the open transactions; it never panics,
  and it ends the process only when \<open>Prepare\<close> fails.
\<close>

lemma GetChannel_state:
  assumes "GetChannel p u slug = (out, p')"
  shows "Database p' = Database p \<and> open_tx p' = open_tx p \<and>
         (fatal_faults p = [] \<longrightarrow> fatal_faults p' = [] \<and> out \<noteq> Fatal) \<and> out \<noteq> Panic"
  using assms
  by (auto simp: GetChannel_def Prepare_def QueryRow_def fatal_fault_def stmt_fault_def
           split: prod.splits option.splits sum.splits list.splits bool.splits)

lemma GetUserById_state:
  assumes "GetUserById p i = (out, p')"
  shows "Database p' = Database p \<and> open_tx p' = open_tx p \<and>
         (fatal_faults p = [] \<longrightarrow> fatal_faults p' = [] \<and> out \<noteq> Fatal) \<and> out \<noteq> Panic"
  using assms
  by (auto simp: GetUserById_def Prepare_def QueryRow_def fatal_fault_def stmt_fault_def
           split: prod.splits option.splits sum.splits list.splits bool.splits)

lemma GetUser_state:
  assumes "GetUser p username = (out, p')"
  shows "Database p' = Database p \<and> open_tx p' = open_tx p \<and>
         (fatal_faults p = [] \<longrightarrow> fatal_faults p' = [] \<and> out \<noteq> Fatal) \<and> out \<noteq> Panic"
  using assms
  by (auto simp: GetUser_def Prepare_def QueryRow_def fatal_fault_def stmt_fault_def
           split: prod.splits option.splits sum.splits list.splits bool.splits)

text \<open>\<open>GetChannel\<close> returns a nil channel exactly when it returns an error.\<close>

lemma GetChannel_nil_iff_error:
  "GetChannel p u slug = (Return (c, err), p') \<Longrightarrow> (c = None) = (err \<noteq> None)"
  by (auto simp: GetChannel_def split: prod.splits option.splits sum.splits)

subsection \<open>The loop of AddChannels\<close>

text \<open>One iteration for a non-empty label, when the loop comes to return.\<close>

lemma AddChannels_loop_step:
  assumes "AddChannels_loop ToLower u (label # names) tx p created = (Return (cs, tx'), p')"
    and "label \<noteq> []"
  obtains r tx1 p1 c err p2 where
    "Exec (insert_channel (User_Id u) (slug_of ToLower label) label) tx p = (r, tx1, p1)"
    "GetChannel p1 u (slug_of ToLower label) = (Return (c, err), p2)"
    "AddChannels_loop ToLower u names tx1 p2 (if err \<noteq> None then created @ [c] else created)
       = (Return (cs, tx'), p')"
proof -
  obtain r tx1 p1 where e: "Exec (insert_channel (User_Id u) (slug_of ToLower label) label) tx p = (r, tx1, p1)"
    by (cases "Exec (insert_channel (User_Id u) (slug_of ToLower label) label) tx p") auto
  obtain out p2 where g: "GetChannel p1 u (slug_of ToLower label) = (out, p2)"
    by (cases "GetChannel p1 u (slug_of ToLower label)") auto
  show thesis
  proof (cases out)
    case (Return ce)
    obtain c err where ce: "ce = (c, err)" by (cases ce) auto
    from assms e g Return ce
    have "AddChannels_loop ToLower u names tx1 p2 (if err \<noteq> None then created @ [c] else created)
            = (Return (cs, tx'), p')" by (simp add: Let_def)
    with e g Return ce that show thesis by blast
  next
    case Fatal
    with assms e g show thesis by (simp add: Let_def)
  next
    case Panic
    with assms e g show thesis by (simp add: Let_def)
  qed
qed

text \<open>Running the loop over \<open>xs @ ys\<close> is running it over \<open>xs\<close> and then over \<open>ys\<close>.\<close>

lemma AddChannels_loop_append:
  "AddChannels_loop ToLower u (xs @ ys) tx p created =
     (case AddChannels_loop ToLower u xs tx p created of
        (Return (created1, tx1), p1) \<Rightarrow> AddChannels_loop ToLower u ys tx1 p1 created1
      | (Fatal, p1) \<Rightarrow> (Fatal, p1)
      | (Panic, p1) \<Rightarrow> (Panic, p1))"
proof (induction xs arbitrary: tx p created)
  case Nil
  show ?case by simp
next
  case (Cons label xs)
  show ?case
  proof (cases "label = []")
    case True
    then show ?thesis by (simp add: Cons.IH)
  next
    case False
    then show ?thesis
      by (simp add: Let_def Cons.IH split: prod.split outcome.split split del: if_split)
  qed
qed

lemma AddChannels_loop_filter:
  "AddChannels_loop ToLower u (filter (\<lambda>label. label \<noteq> []) names) tx p created =
   AddChannels_loop ToLower u names tx p created"
proof (induction names arbitrary: tx p created)
  case Nil
  show ?case by simp
next
  case (Cons label names)
  show ?case
  proof (cases "label = []")
    case True
    then show ?thesis by (simp add: Cons.IH)
  next
    case False
    then show ?thesis
      by (simp add: Let_def Cons.IH split: prod.split outcome.split split del: if_split)
  qed
qed

lemma AddChannels_loop_nil:
  "AddChannels_loop ToLower u names tx p created = (Return (created', tx'), p') \<Longrightarrow>
   \<forall>c\<in>set created. c = None \<Longrightarrow> \<forall>c\<in>set created'. c = None"
proof (induction names arbitrary: tx p created)
  case Nil
  then show ?case by simp
next
  case (Cons label names)
  show ?case
  proof (cases "label = []")
    case True
    with Cons show ?thesis by simp
  next
    case False
    from Cons.prems(1) False obtain r tx1 p1 c err p2 where
      e: "Exec (insert_channel (User_Id u) (slug_of ToLower label) label) tx p = (r, tx1, p1)" and
      g: "GetChannel p1 u (slug_of ToLower label) = (Return (c, err), p2)" and
      l: "AddChannels_loop ToLower u names tx1 p2 (if err \<noteq> None then created @ [c] else created)
           = (Return (created', tx'), p')"
      by (rule AddChannels_loop_step)
    from GetChannel_nil_iff_error [OF g] Cons.prems(2)
    have "\<forall>x\<in>set (if err \<noteq> None then created @ [c] else created). x = None" by auto
    with l show ?thesis by (rule Cons.IH)
  qed
qed

text \<open>
  The loop runs its lookups on the committed tables and leaves them as they are; it ends
  the process only when a \<open>Prepare\<close> fails.
\<close>

lemma AddChannels_loop_state:
  "AddChannels_loop ToLower u names tx p created = (out, p') \<Longrightarrow>
   Database p' = Database p \<and> open_tx p' = open_tx p \<and> out \<noteq> Panic \<and>
   (fatal_faults p = [] \<longrightarrow> fatal_faults p' = [] \<and> out \<noteq> Fatal)"
proof (induction names arbitrary: tx p created)
  case Nil
  then show ?case by auto
next
  case (Cons label names)
  show ?case
  proof (cases "label = []")
    case True
    with Cons show ?thesis by simp
  next
    case False
    obtain r tx1 p1 where e: "Exec (insert_channel (User_Id u) (slug_of ToLower label) label) tx p = (r, tx1, p1)"
      by (cases "Exec (insert_channel (User_Id u) (slug_of ToLower label) label) tx p") auto
    obtain o2 p2 where g: "GetChannel p1 u (slug_of ToLower label) = (o2, p2)"
      by (cases "GetChannel p1 u (slug_of ToLower label)") auto
    note s1 = Exec_state [OF e]
    note s2 = GetChannel_state [OF g]
    show ?thesis
    proof (cases o2)
      case (Return ce)
      obtain c err where ce: "ce = (c, err)" by (cases ce) auto
      from Cons.prems False e g Return ce
      have "AddChannels_loop ToLower u names tx1 p2 (if err \<noteq> None then created @ [c] else created)
              = (out, p')" by (simp add: Let_def)
      from Cons.IH [OF this] s1 s2 show ?thesis by simp
    next
      case Fatal
      with Cons.prems False e g s1 s2 show ?thesis by (auto simp: Let_def)
    next
      case Panic
      with s2 show ?thesis by simp
    qed
  qed
qed

text \<open>
  \<open>AddChannels\<close> either ends the process before anything is committed, or returns what its
  loop collected, with a nil error, after committing the transaction of the loop.
\<close>

lemma AddChannels_cases:
  assumes "AddChannels ToLower p u names = (out, p')"
  shows "(out = Fatal \<and> Database p' = Database p) \<or>
         (\<exists>created tx1 p2 p3. out = Return (created, None) \<and> Database p2 = Database p \<and>
            open_tx p2 = Suc (open_tx p) \<and>
            AddChannels_loop ToLower u names \<lparr>work = Database p\<rparr> p2 [] = (Return (created, tx1), p3) \<and>
            p' = Commit tx1 p3)"
proof -
  obtain b p0 where f: "fatal_fault p = (b, p0)" by (cases "fatal_fault p") auto
  then have k0: "Database p0 = Database p" "open_tx p0 = open_tx p"
    using fatal_fault_keeps [of p] by auto
  show ?thesis
  proof (cases b)
    case True
    with assms f k0 show ?thesis by (auto simp: AddChannels_def Begin_def)
  next
    case False
    define p1 where "p1 = p0\<lparr>open_tx := Suc (open_tx p0)\<rparr>"
    have b: "Begin p = (Inr \<lparr>work = Database p\<rparr>, p1)"
      using f False k0 by (simp add: Begin_def p1_def)
    obtain b2 p2 where f2: "fatal_fault p1 = (b2, p2)" by (cases "fatal_fault p1") auto
    then have k2: "Database p2 = Database p" "open_tx p2 = Suc (open_tx p)"
      using fatal_fault_keeps [of p1] k0 by (auto simp: p1_def)
    show ?thesis
    proof (cases b2)
      case True
      with assms b f2 k2 show ?thesis by (auto simp: AddChannels_def Prepare_def)
    next
      case False
      then have pr: "Prepare p1 = (None, p2)" using f2 by (simp add: Prepare_def)
      obtain o3 p3 where l: "AddChannels_loop ToLower u names \<lparr>work = Database p\<rparr> p2 [] = (o3, p3)"
        by (cases "AddChannels_loop ToLower u names \<lparr>work = Database p\<rparr> p2 []") auto
      note s = AddChannels_loop_state [OF l]
      show ?thesis
      proof (cases o3)
        case (Return ct)
        obtain created tx1 where "ct = (created, tx1)" by (cases ct) auto
        with assms b pr l Return k2 show ?thesis by (auto simp: AddChannels_def)
      next
        case Fatal
        with assms b pr l s k2 show ?thesis by (auto simp: AddChannels_def)
      next
        case Panic
        with s show ?thesis by simp
      qed
    qed
  qed
qed

text \<open>Every channel row of the transaction was there before or was inserted for a label.\<close>

lemma Exec_insert_channel_rows:
  assumes "Exec (insert_channel uid slug label) tx p = (r, tx1, p1)"
  shows "\<forall>x\<in>set (channel (work tx1)). x \<in> set (channel (work tx)) \<or>
           (channel_user_id x = uid \<and> channel_slug x = slug \<and> channel_label x = label)"
  using assms
  by (auto simp: Exec_def insert_channel_def Let_def
           split: prod.splits bool.splits sum.splits if_splits)

lemma AddChannels_loop_rows:
  "AddChannels_loop ToLower u names tx p created = (Return (cs, tx'), p') \<Longrightarrow>
   \<forall>x\<in>set (channel (work tx')). x \<in> set (channel (work tx)) \<or>
      (channel_user_id x = User_Id u \<and> channel_label x \<noteq> [] \<and> channel_label x \<in> set names \<and>
       channel_slug x = slug_of ToLower (channel_label x))"
proof (induction names arbitrary: tx p created)
  case Nil
  then show ?case by simp
next
  case (Cons label names)
  show ?case
  proof (cases "label = []")
    case True
    with Cons.prems have "AddChannels_loop ToLower u names tx p created = (Return (cs, tx'), p')"
      by simp
    from Cons.IH [OF this] show ?thesis by auto
  next
    case False
    from Cons.prems False obtain r tx1 p1 c err p2 where
      e: "Exec (insert_channel (User_Id u) (slug_of ToLower label) label) tx p = (r, tx1, p1)" and
      g: "GetChannel p1 u (slug_of ToLower label) = (Return (c, err), p2)" and
      l: "AddChannels_loop ToLower u names tx1 p2 (if err \<noteq> None then created @ [c] else created)
           = (Return (cs, tx'), p')"
      by (rule AddChannels_loop_step)
    from Cons.IH [OF l] Exec_insert_channel_rows [OF e] False
    show ?thesis by fastforce
  qed
qed

text \<open>
  When \<open>Begin\<close> and every \<open>Prepare\<close> succeed, \<open>AddChannels\<close> returns, with a nil error,
  and has committed the transaction of its loop.
\<close>

lemma AddChannels_no_fatal:
  assumes "fatal_faults p = []"
  shows "\<exists>created tx1 p3.
           AddChannels_loop ToLower u names \<lparr>work = Database p\<rparr> (p\<lparr>open_tx := Suc (open_tx p)\<rparr>) []
             = (Return (created, tx1), p3) \<and>
           AddChannels ToLower p u names = (Return (created, None), Commit tx1 p3) \<and>
           fatal_faults p3 = [] \<and> open_tx p3 = Suc (open_tx p) \<and> Database p3 = Database p"
proof -
  define p0 where "p0 = p\<lparr>open_tx := Suc (open_tx p)\<rparr>"
  have nf0: "fatal_faults p0 = []" using assms by (simp add: p0_def)
  obtain out p3 where l: "AddChannels_loop ToLower u names \<lparr>work = Database p\<rparr> p0 [] = (out, p3)"
    by (cases "AddChannels_loop ToLower u names \<lparr>work = Database p\<rparr> p0 []") auto
  from AddChannels_loop_state [OF l] nf0
  have k: "Database p3 = Database p" "open_tx p3 = Suc (open_tx p)" "fatal_faults p3 = []"
    "out \<noteq> Fatal" "out \<noteq> Panic" by (simp_all add: p0_def)
  then obtain created tx1 where o: "out = Return (created, tx1)" by (cases out) auto
  from assms nf0 l o
  have "AddChannels ToLower p u names = (Return (created, None), Commit tx1 p3)"
    by (simp add: AddChannels_def p0_def [symmetric])
  with l o k show ?thesis unfolding p0_def by blast
qed

text \<open>
  What a driver call does to the handle: it consumes the next entry of the list it reads.
  Two handles with the same four fields are equal.
\<close>

lemma stmt_fault_snd:
  "snd (stmt_fault p) = p\<lparr>stmt_faults := drop 1 (stmt_faults p)\<rparr>"
  by (cases "stmt_faults p") (simp_all add: stmt_fault_def)

lemma fatal_fault_snd:
  "snd (fatal_fault p) = p\<lparr>fatal_faults := drop 1 (fatal_faults p)\<rparr>"
  by (cases "fatal_faults p") (simp_all add: fatal_fault_def)

lemma GetChannel_Return_state:
  "GetChannel p u slug = (Return ce, p') \<Longrightarrow>
   p' = p\<lparr>fatal_faults := drop 1 (fatal_faults p), stmt_faults := drop 1 (stmt_faults p)\<rparr>"
  by (cases "fatal_faults p"; cases "stmt_faults p")
     (auto simp: GetChannel_def Prepare_def QueryRow_def fatal_fault_def stmt_fault_def
           split: prod.splits option.splits sum.splits list.splits bool.splits)

lemma GetUserById_Return_state:
  "GetUserById p i = (Return ue, p') \<Longrightarrow>
   p' = p\<lparr>fatal_faults := drop 1 (fatal_faults p), stmt_faults := drop 1 (stmt_faults p)\<rparr>"
  by (cases "fatal_faults p"; cases "stmt_faults p")
     (auto simp: GetUserById_def Prepare_def QueryRow_def fatal_fault_def stmt_fault_def
           split: prod.splits option.splits sum.splits list.splits bool.splits)

lemma Persistence_eqI:
  fixes a b :: Persistence
  shows "Database a = Database b \<Longrightarrow> open_tx a = open_tx b \<Longrightarrow>
         fatal_faults a = fatal_faults b \<Longrightarrow> stmt_faults a = stmt_faults b \<Longrightarrow> a = b"
  by (rule Persistence.equality) simp_all

subsection \<open>The list that AddChannels returns\<close>

lemma reported_by_Return:
  "reported_by ((Return (c, e), q)) = (if e \<noteq> None then [c] else [])"
  by (cases e) (simp_all add: reported_by_def)

text \<open>
  The loop of \<open>AddChannels\<close>, started before the non-empty label number \<open>j\<close>: when it
  returns, it has appended what the lookups of its labels report, each lookup on the
  handle that the calls before it have left.
\<close>

lemma AddChannels_loop_reports:
  "AddChannels_loop ToLower u names tx
      (q\<lparr>fatal_faults := drop j ffs, stmt_faults := drop (2 * j) fs\<rparr>) created
     = (Return (cs, tx'), p') \<Longrightarrow>
   cs = created @ concat (map (\<lambda>(k, label).
          reported_by (GetChannel (q\<lparr>fatal_faults := drop k ffs,
                                      stmt_faults := drop (2 * k + 1) fs\<rparr>) u
                         (slug_of ToLower label)))
        (zip [j..<j + length (filter (\<lambda>label. label \<noteq> []) names)]
             (filter (\<lambda>label. label \<noteq> []) names)))"
proof (induction names arbitrary: j tx created)
  case Nil
  then show ?case by simp
next
  case (Cons label names)
  show ?case
  proof (cases "label = []")
    case True
    with Cons.prems Cons.IH [of tx j created] show ?thesis by simp
  next
    case False
    define ls where "ls = filter (\<lambda>label. label \<noteq> []) names"
    define s0 where "s0 = q\<lparr>fatal_faults := drop j ffs, stmt_faults := drop (2 * j) fs\<rparr>"
    define s1 where "s1 = q\<lparr>fatal_faults := drop j ffs, stmt_faults := drop (2 * j + 1) fs\<rparr>"
    define s2 where "s2 = q\<lparr>fatal_faults := drop (Suc j) ffs, stmt_faults := drop (2 * Suc j) fs\<rparr>"
    from Cons.prems False obtain r tx1 p1 c err p2 where
      e: "Exec (insert_channel (User_Id u) (slug_of ToLower label) label) tx s0 = (r, tx1, p1)" and
      g: "GetChannel p1 u (slug_of ToLower label) = (Return (c, err), p2)" and
      l: "AddChannels_loop ToLower u names tx1 p2 (if err \<noteq> None then created @ [c] else created)
           = (Return (cs, tx'), p')"
      unfolding s0_def by (rule AddChannels_loop_step)
    from Exec_state [OF e] have p1: "p1 = s1"
      by (simp add: stmt_fault_snd s0_def s1_def)
    from GetChannel_Return_state [OF g] have p2: "p2 = s2"
      by (simp add: p1 s1_def s2_def)
    have acc: "(if err \<noteq> None then created @ [c] else created) =
               created @ reported_by (GetChannel s1 u (slug_of ToLower label))"
      using g by (simp add: p1 reported_by_Return)
    have z: "zip [j..<j + length (label # ls)] (label # ls) =
               (j, label) # zip [Suc j..<Suc j + length ls] ls"
      by (subst upt_rec) simp
    from Cons.IH [OF l [unfolded p2 s2_def]]
    have "cs = (if err \<noteq> None then created @ [c] else created) @
            concat (map (\<lambda>(k, label).
              reported_by (GetChannel (q\<lparr>fatal_faults := drop k ffs,
                                          stmt_faults := drop (2 * k + 1) fs\<rparr>) u
                             (slug_of ToLower label)))
            (zip [Suc j..<Suc j + length ls] ls))"
      unfolding ls_def .
    then have "cs = created @ concat (map (\<lambda>(k, label).
              reported_by (GetChannel (q\<lparr>fatal_faults := drop k ffs,
                                          stmt_faults := drop (2 * k + 1) fs\<rparr>) u
                             (slug_of ToLower label)))
            (zip [j..<j + length (label # ls)] (label # ls)))"
      unfolding z acc by (simp add: s1_def)
    then show ?thesis using False unfolding ls_def by simp
  qed
qed

text \<open>
  When \<open>AddChannels\<close> returns, \<open>Begin\<close> and \<open>tx.Prepare\<close> have succeeded, the loop has
  returned, and the error is nil.
\<close>

lemma AddChannels_Return_loop:
  assumes "AddChannels ToLower p u names = (Return (created, err), p')"
  shows "err = None \<and>
         (\<exists>tx' p3. AddChannels_loop ToLower u names \<lparr>work = Database p\<rparr>
              (p\<lparr>open_tx := Suc (open_tx p), fatal_faults := drop 2 (fatal_faults p)\<rparr>) []
            = (Return (created, tx'), p3))"
proof -
  obtain r1 p1 where b: "Begin p = (r1, p1)" by (cases "Begin p") auto
  with assms obtain tx where r1: "r1 = Inr tx"
    by (cases r1) (auto simp: AddChannels_def)
  obtain b0 p0 where f: "fatal_fault p = (b0, p0)" by (cases "fatal_fault p") auto
  then have p0: "p0 = snd (fatal_fault p)" by simp
  have k0: "Database p0 = Database p" "open_tx p0 = open_tx p"
    unfolding p0 by simp_all
  from b r1 f k0 have tx: "tx = \<lparr>work = Database p\<rparr>"
    and p1: "p1 = (snd (fatal_fault p))\<lparr>open_tx := Suc (open_tx p)\<rparr>"
    by (auto simp: Begin_def split: bool.splits)
  obtain r2 p2 where pr: "Prepare p1 = (r2, p2)" by (cases "Prepare p1") auto
  with assms b r1 have r2: "r2 = None"
    by (cases r2) (auto simp: AddChannels_def)
  from Prepare_state [OF pr]
  have p2: "p2 = p\<lparr>open_tx := Suc (open_tx p), fatal_faults := drop 2 (fatal_faults p)\<rparr>"
    unfolding p1 by (intro Persistence_eqI) (simp_all add: fatal_fault_snd numeral_2_eq_2)
  from assms b r1 pr r2 tx p2 show ?thesis
    by (auto simp: AddChannels_def split: prod.splits outcome.splits)
qed

text \<open>
  C1. Whenever \<open>AddChannels\<close> returns, the list it returns is made of what the lookups
  of its non-empty labels report, in the order of the labels: for each label, the
  channel that \<open>GetChannel\<close> returned for the slug of the label when that lookup, made
  after the insert, returned an error, and nothing when the lookup succeeded; the error
  returned is nil. And \<open>AddChannels\<close> does return when \<open>Begin\<close> and the \<open>Prepare\<close> calls
  succeed.
\<close>

theorem AddChannels_reports_only_failed_lookups:
  "(\<forall>created err p'. AddChannels ToLower p u names = (Return (created, err), p') \<longrightarrow>
      created = concat (map (\<lambda>(k, label).
                  reported_by (GetChannel (lookup_state p k) u (slug_of ToLower label)))
                (zip [0..<length (filter (\<lambda>label. label \<noteq> []) names)]
                     (filter (\<lambda>label. label \<noteq> []) names))) \<and>
      err = None) \<and>
   (fatal_faults p = [] \<longrightarrow>
      (\<exists>created p'. AddChannels ToLower p u names = (Return (created, None), p')))"
proof (intro conjI allI impI)
  fix created err p'
  assume a: "AddChannels ToLower p u names = (Return (created, err), p')"
  define q where "q = p\<lparr>open_tx := Suc (open_tx p)\<rparr>"
  have s: "q\<lparr>fatal_faults := drop 0 (drop 2 (fatal_faults p)),
             stmt_faults := drop (2 * 0) (stmt_faults p)\<rparr>
           = p\<lparr>open_tx := Suc (open_tx p), fatal_faults := drop 2 (fatal_faults p)\<rparr>"
    by (intro Persistence_eqI) (simp_all add: q_def)
  from AddChannels_Return_loop [OF a] obtain tx' p3 where
    l: "AddChannels_loop ToLower u names \<lparr>work = Database p\<rparr>
          (q\<lparr>fatal_faults := drop 0 (drop 2 (fatal_faults p)),
             stmt_faults := drop (2 * 0) (stmt_faults p)\<rparr>) []
        = (Return (created, tx'), p3)"
    unfolding s by blast
  have ls: "q\<lparr>fatal_faults := drop k (drop 2 (fatal_faults p)),
              stmt_faults := drop (2 * k + 1) (stmt_faults p)\<rparr> = lookup_state p k" for k
    by (intro Persistence_eqI) (simp_all add: q_def lookup_state_def)
  from AddChannels_loop_reports [OF l]
  show "created = concat (map (\<lambda>(k, label).
                  reported_by (GetChannel (lookup_state p k) u (slug_of ToLower label)))
                (zip [0..<length (filter (\<lambda>label. label \<noteq> []) names)]
                     (filter (\<lambda>label. label \<noteq> []) names)))"
    unfolding ls by simp
  from AddChannels_Return_loop [OF a] show "err = None" by simp
next
  assume nf: "fatal_faults p = []"
  from AddChannels_no_fatal [where ToLower = ToLower and u = u and names = names, OF nf]
  show "\<exists>created p'. AddChannels ToLower p u names = (Return (created, None), p')"
    by blast
qed

text \<open>
  On the example alice has the channel Diary, and Tech News is new. The lookup for
  Diary, after an insert that fails on the uniqueness of the slug, finds her row and
  reports nothing; the lookup for Tech News, outside the transaction, finds no row and
  reports the nil channel. The list returned is that single nil.
\<close>

lemma example_lookup_Diary:
  "GetChannel (lookup_state example_p 0) alice (slug_of ascii_ToLower ''Diary'')
     = (Return (Some \<lparr>Channel_Id = 1, Channel_User = Some alice, Channel_Slug = ''diary'',
                       Channel_Label = ''Diary''\<rparr>, None), example_p\<lparr>open_tx := 1\<rparr>)"
  by code_simp

lemma example_lookup_Tech_News:
  "GetChannel (lookup_state example_p 1) alice (slug_of ascii_ToLower ''Tech News'')
     = (Return (None, Some ErrNoRows), example_p\<lparr>open_tx := 1\<rparr>)"
  by code_simp

lemma example_AddChannels_two:
  "AddChannels ascii_ToLower example_p alice [''Diary'', ''Tech News'']
     = (Return ([None], None),
        example_p\<lparr>Database := example_tables\<lparr>channel := channel example_tables @ [tech_news_row]\<rparr>\<rparr>)"
  by code_simp

theorem AddChannels_reports_only_failed_lookups_witness:
  "fatal_faults example_p = [] \<and>
   AddChannels ascii_ToLower example_p alice [''Diary'', ''Tech News'']
     = (Return ([None], None),
        example_p\<lparr>Database := example_tables\<lparr>channel := channel example_tables @ [tech_news_row]\<rparr>\<rparr>) \<and>
   GetChannel (lookup_state example_p 0) alice (slug_of ascii_ToLower ''Diary'')
     = (Return (Some \<lparr>Channel_Id = 1, Channel_User = Some alice, Channel_Slug = ''diary'',
                       Channel_Label = ''Diary''\<rparr>, None), example_p\<lparr>open_tx := 1\<rparr>) \<and>
   GetChannel (lookup_state example_p 1) alice (slug_of ascii_ToLower ''Tech News'')
     = (Return (None, Some ErrNoRows), example_p\<lparr>open_tx := 1\<rparr>) \<and>
   [None] =
     reported_by (GetChannel (lookup_state example_p 0) alice (slug_of ascii_ToLower ''Diary'')) @
     reported_by (GetChannel (lookup_state example_p 1) alice
                    (slug_of ascii_ToLower ''Tech News''))"
proof -
  have nf: "fatal_faults example_p = []" by (simp add: example_p_def)
  note c = AddChannels_reports_only_failed_lookups
             [where ToLower = ascii_ToLower and p = example_p and u = alice
                and names = "[''Diary'', ''Tech News'']"]
  from c [THEN conjunct1, rule_format, OF example_AddChannels_two]
  have "[None] =
     reported_by (GetChannel (lookup_state example_p 0) alice (slug_of ascii_ToLower ''Diary'')) @
     reported_by (GetChannel (lookup_state example_p 1) alice
                    (slug_of ascii_ToLower ''Tech News''))"
    by (simp add: upt_conv_Cons)
  with nf example_AddChannels_two example_lookup_Diary example_lookup_Tech_News
  show ?thesis by (intro conjI)
qed

subsection \<open>Empty labels, and what the returned list holds\<close>

lemma example_AddChannels:
  "AddChannels ascii_ToLower example_p alice [Nil, ''Tech News'', Nil]
     = (Return ([None], None),
        example_p\<lparr>Database := example_tables\<lparr>channel := channel example_tables @ [tech_news_row]\<rparr>\<rparr>)"
  by code_simp

text \<open>
  C5. An empty label is ignored: \<open>AddChannels\<close> does on a list of labels what it does on
  the list without its empty entries, and every channel row in the database afterwards was
  there before or has a non-empty label.
\<close>

theorem AddChannels_ignores_empty_labels:
  "AddChannels ToLower p u names = AddChannels ToLower p u (filter (\<lambda>label. label \<noteq> []) names) \<and>
   (\<forall>r\<in>set (channel (Database (snd (AddChannels ToLower p u names)))).
      r \<in> set (channel (Database p)) \<or> channel_label r \<noteq> [])"
proof
  show "AddChannels ToLower p u names = AddChannels ToLower p u (filter (\<lambda>label. label \<noteq> []) names)"
    by (simp add: AddChannels_def AddChannels_loop_filter split: prod.split sum.split option.split)
next
  obtain out p' where a: "AddChannels ToLower p u names = (out, p')"
    by (cases "AddChannels ToLower p u names") auto
  from AddChannels_cases [OF a]
  have "\<forall>r\<in>set (channel (Database p')). r \<in> set (channel (Database p)) \<or> channel_label r \<noteq> []"
  proof
    assume "out = Fatal \<and> Database p' = Database p"
    then show ?thesis by simp
  next
    assume "\<exists>created tx1 p2 p3. out = Return (created, None) \<and> Database p2 = Database p \<and>
            open_tx p2 = Suc (open_tx p) \<and>
            AddChannels_loop ToLower u names \<lparr>work = Database p\<rparr> p2 [] = (Return (created, tx1), p3) \<and>
            p' = Commit tx1 p3"
    then obtain created tx1 p2 p3 where
      l: "AddChannels_loop ToLower u names \<lparr>work = Database p\<rparr> p2 [] = (Return (created, tx1), p3)"
      and c: "p' = Commit tx1 p3" by blast
    from AddChannels_loop_rows [OF l] c show ?thesis by (auto simp: Commit_def)
  qed
  with a show "\<forall>r\<in>set (channel (Database (snd (AddChannels ToLower p u names)))).
      r \<in> set (channel (Database p)) \<or> channel_label r \<noteq> []" by simp
qed

theorem AddChannels_ignores_empty_labels_witness:
  "AddChannels ascii_ToLower example_p alice [Nil, ''Tech News'', Nil]
     = AddChannels ascii_ToLower example_p alice [''Tech News''] \<and>
   channel (Database (snd (AddChannels ascii_ToLower example_p alice [Nil, ''Tech News'', Nil])))
     = channel example_tables @ [tech_news_row]"
proof -
  have a: "AddChannels ascii_ToLower example_p alice [Nil, ''Tech News'', Nil]
             = AddChannels ascii_ToLower example_p alice [''Tech News'']"
    using AddChannels_ignores_empty_labels
            [where ToLower = ascii_ToLower and p = example_p and u = alice
               and names = "[Nil, ''Tech News'', Nil]"]
    by simp
  have b: "channel (Database (snd (AddChannels ascii_ToLower example_p alice [Nil, ''Tech News'', Nil])))
             = channel example_tables @ [tech_news_row]"
    by (simp add: example_AddChannels)
  from a b show ?thesis by blast
qed

text \<open>
  C10. Every element of the list \<open>created\<close> that \<open>AddChannels\<close> returns is a nil pointer:
  an element is appended only after an error of \<open>GetChannel\<close>, and \<open>GetChannel\<close> returns
  nil exactly then.
\<close>

theorem AddChannels_created_all_nil:
  assumes "AddChannels ToLower p u names = (Return (created, err), p')"
  shows "\<forall>c\<in>set created. c = None"
proof -
  from AddChannels_cases [OF assms] obtain tx1 p2 p3 where
    "AddChannels_loop ToLower u names \<lparr>work = Database p\<rparr> p2 [] = (Return (created, tx1), p3)"
    by auto
  from AddChannels_loop_nil [OF this] show ?thesis by simp
qed

theorem AddChannels_created_all_nil_witness:
  "AddChannels ascii_ToLower example_p alice [Nil, ''Tech News'', Nil]
     = (Return ([None], None),
        example_p\<lparr>Database := example_tables\<lparr>channel := channel example_tables @ [tech_news_row]\<rparr>\<rparr>) \<and>
   set [None :: Channel option] = {None}"
  using AddChannels_created_all_nil [OF example_AddChannels] example_AddChannels
  by simp

subsection \<open>Channel creation followed by the listing\<close>

lemma GetChannel_stmt_faults:
  "GetChannel p u slug = (out, p') \<Longrightarrow> stmt_faults p = [] \<Longrightarrow> stmt_faults p' = []"
  by (auto simp: GetChannel_def Prepare_def QueryRow_def fatal_fault_def stmt_fault_def
           split: prod.splits option.splits sum.splits list.splits bool.splits)

text \<open>
  An insert keeps the pairs of user and slug distinct and loses none of them; when the
  driver does not fail, the pair of the insert is in the table afterwards, whether the
  row was inserted or was there.
\<close>

lemma Exec_insert_channel_keys:
  assumes "Exec (insert_channel uid slug label) tx p = (r, tx1, p1)"
    and "distinct (channel_keys (work tx))"
  shows "distinct (channel_keys (work tx1)) \<and>
         set (channel_keys (work tx)) \<subseteq> set (channel_keys (work tx1)) \<and>
         (stmt_faults p = [] \<longrightarrow> (uid, slug) \<in> set (channel_keys (work tx1)) \<and> stmt_faults p1 = [])"
  using assms
  by (auto simp: Exec_def insert_channel_def Let_def channel_keys_def stmt_fault_def
           split: prod.splits bool.splits sum.splits if_splits list.splits)

lemma AddChannels_loop_keys:
  "AddChannels_loop ToLower u names tx p created = (Return (cs, tx'), p') \<Longrightarrow>
   distinct (channel_keys (work tx)) \<Longrightarrow>
   distinct (channel_keys (work tx')) \<and>
   set (channel_keys (work tx)) \<subseteq> set (channel_keys (work tx')) \<and>
   (stmt_faults p = [] \<longrightarrow>
      (\<forall>label\<in>set names. label \<noteq> [] \<longrightarrow>
         (User_Id u, slug_of ToLower label) \<in> set (channel_keys (work tx'))))"
proof (induction names arbitrary: tx p created)
  case Nil
  then show ?case by simp
next
  case (Cons label names)
  show ?case
  proof (cases "label = []")
    case True
    with Cons.prems have "AddChannels_loop ToLower u names tx p created = (Return (cs, tx'), p')"
      by simp
    from Cons.IH [OF this Cons.prems(2)] True show ?thesis by simp
  next
    case False
    from Cons.prems(1) False obtain r tx1 p1 c err p2 where
      e: "Exec (insert_channel (User_Id u) (slug_of ToLower label) label) tx p = (r, tx1, p1)" and
      g: "GetChannel p1 u (slug_of ToLower label) = (Return (c, err), p2)" and
      l: "AddChannels_loop ToLower u names tx1 p2 (if err \<noteq> None then created @ [c] else created)
           = (Return (cs, tx'), p')"
      by (rule AddChannels_loop_step)
    note k1 = Exec_insert_channel_keys [OF e Cons.prems(2)]
    then have d1: "distinct (channel_keys (work tx1))" by simp
    note k2 = Cons.IH [OF l d1]
    have "stmt_faults p = [] \<Longrightarrow> stmt_faults p2 = []"
      using k1 GetChannel_stmt_faults [OF g] by simp
    with k1 k2 show ?thesis by auto
  qed
qed

lemma distinct_keys_filter:
  "distinct (map (\<lambda>r. (f r, g r)) xs) \<Longrightarrow> distinct (map g (filter (\<lambda>r. f r = a) xs))"
proof (induction xs)
  case Nil
  then show ?case by simp
next
  case (Cons x xs)
  then have d: "distinct (map g (filter (\<lambda>r. f r = a) xs))" by simp
  show ?case
  proof (cases "f x = a")
    case False
    with d show ?thesis by simp
  next
    case True
    have "g x \<notin> g ` set (filter (\<lambda>r. f r = a) xs)"
    proof
      assume "g x \<in> g ` set (filter (\<lambda>r. f r = a) xs)"
      then obtain y where y: "y \<in> set xs" "f y = a" "g y = g x" by auto
      with True have "(f x, g x) \<in> (\<lambda>r. (f r, g r)) ` set xs"
        by (auto simp: image_iff intro: bexI [of _ y])
      with Cons.prems show False by simp
    qed
    with d True show ?thesis by simp
  qed
qed

lemma UserChannels_no_fatal:
  assumes "fatal_faults p = []"
  shows "UserChannels p u =
           (Return (map Some (map Channel_of_row
              (filter (\<lambda>r. channel_user_id r = User_Id u) (channel (Database p))))), p)"
  using assms
  by (simp add: UserChannels_def select_channel_by_user_def Channel_of_row_def comp_def)

lemma Channel_of_row_simps [simp]:
  "Channel_Slug (Channel_of_row r) = channel_slug r"
  "Channel_Label (Channel_of_row r) = channel_label r"
  by (simp_all add: Channel_of_row_def)

text \<open>
  C4. On a handle whose driver calls do not fail, and a channel table that satisfies its
  uniqueness constraint, \<open>AddChannels\<close> followed by \<open>UserChannels\<close> lists channels with
  distinct slugs; for every non-empty label exactly one listed channel has the slug of
  the label, which is the label with every space replaced by an underscore and then
  lower-cased by \<open>strings.ToLower\<close>, whatever that function is; and every listed channel
  was there before or has a label of the call and the slug of that label.
\<close>

theorem AddChannels_then_UserChannels:
  assumes "fatal_faults p = []" and "stmt_faults p = []"
    and "distinct (channel_keys (Database p))"
  shows "\<exists>created p1 chans.
     AddChannels ToLower p u names = (Return (created, None), p1) \<and>
     UserChannels p1 u = (Return (map Some chans), p1) \<and>
     distinct (map Channel_Slug chans) \<and>
     (\<forall>label\<in>set names. label \<noteq> [] \<longrightarrow>
        (\<exists>!c. c \<in> set chans \<and> Channel_Slug c = slug_of ToLower label)) \<and>
     (\<forall>c\<in>set chans.
        (\<exists>r\<in>set (channel (Database p)). c = Channel_of_row r) \<or>
        (Channel_Label c \<in> set names \<and> Channel_Slug c = slug_of ToLower (Channel_Label c)))"
proof -
  define p0 where "p0 = p\<lparr>open_tx := Suc (open_tx p)\<rparr>"
  from AddChannels_no_fatal [where ToLower = ToLower and u = u and names = names, OF assms(1)] obtain created tx1 p3 where
    l: "AddChannels_loop ToLower u names \<lparr>work = Database p\<rparr> p0 [] = (Return (created, tx1), p3)" and
    a: "AddChannels ToLower p u names = (Return (created, None), Commit tx1 p3)" and
    nf3: "fatal_faults p3 = []"
    unfolding p0_def by blast
  define p1 where "p1 = Commit tx1 p3"
  define rows where "rows = filter (\<lambda>r. channel_user_id r = User_Id u) (channel (work tx1))"
  define chans where "chans = map Channel_of_row rows"
  have nf1: "fatal_faults p1 = []" and d1: "Database p1 = work tx1"
    using nf3 by (simp_all add: p1_def Commit_def)
  have uc: "UserChannels p1 u = (Return (map Some chans), p1)"
    using UserChannels_no_fatal [OF nf1, of u] d1 by (simp add: chans_def rows_def)
  have sf0: "stmt_faults p0 = []" using assms(2) by (simp add: p0_def)
  from AddChannels_loop_keys [OF l] assms(3) sf0
  have dk: "distinct (channel_keys (work tx1))"
    and cov: "\<forall>label\<in>set names. label \<noteq> [] \<longrightarrow>
                (User_Id u, slug_of ToLower label) \<in> set (channel_keys (work tx1))"
    by simp_all
  have slugs: "map Channel_Slug chans = map channel_slug rows"
    by (simp add: chans_def comp_def)
  have dist: "distinct (map Channel_Slug chans)"
    unfolding slugs rows_def using dk distinct_keys_filter [of channel_user_id channel_slug]
    by (simp add: channel_keys_def)
  have one: "\<exists>!c. c \<in> set chans \<and> Channel_Slug c = slug_of ToLower label"
    if "label \<in> set names" "label \<noteq> []" for label
  proof -
    from cov that have "(User_Id u, slug_of ToLower label) \<in> set (channel_keys (work tx1))" by blast
    then obtain r where r: "r \<in> set (channel (work tx1))" "channel_user_id r = User_Id u"
      "channel_slug r = slug_of ToLower label" by (auto simp: channel_keys_def)
    then have "Channel_of_row r \<in> set chans \<and> Channel_Slug (Channel_of_row r) = slug_of ToLower label"
      by (simp add: chans_def rows_def)
    moreover have "c = c'" if "c \<in> set chans" "c' \<in> set chans"
      "Channel_Slug c = slug_of ToLower label" "Channel_Slug c' = slug_of ToLower label" for c c'
    proof -
      from dist have "inj_on Channel_Slug (set chans)" by (simp add: distinct_map)
      with that show ?thesis by (simp add: inj_on_def)
    qed
    ultimately show ?thesis by blast
  qed
  have prov: "(\<exists>r\<in>set (channel (Database p)). c = Channel_of_row r) \<or>
        (Channel_Label c \<in> set names \<and> Channel_Slug c = slug_of ToLower (Channel_Label c))"
    if "c \<in> set chans" for c
  proof -
    from that obtain r where r: "r \<in> set (channel (work tx1))" "c = Channel_of_row r"
      by (auto simp: chans_def rows_def)
    from AddChannels_loop_rows [OF l] r(1)
    have "r \<in> set (channel (Database p)) \<or>
          (channel_label r \<in> set names \<and> channel_slug r = slug_of ToLower (channel_label r))"
      by auto
    with r(2) show ?thesis by auto
  qed
  from a uc dist one prov show ?thesis unfolding p1_def by blast
qed

text \<open>
  On the example alice has the channel Diary. The labels Tech News, Diary and tech news
  give one new row, of slug \<open>tech_news\<close>; the listing has the two slugs \<open>diary\<close> and
  \<open>tech_news\<close>, each once.
\<close>

lemma example_stmt_faults: "stmt_faults example_p = []"
  by (simp add: example_p_def)

lemma example_keys: "distinct (channel_keys (Database example_p))"
  by code_simp

lemma example_AddChannels_three:
  "AddChannels ascii_ToLower example_p alice [''Tech News'', ''Diary'', ''tech news'']
     = (Return ([None, None], None),
        example_p\<lparr>Database := example_tables\<lparr>channel := channel example_tables @ [tech_news_row]\<rparr>\<rparr>)"
  by code_simp

lemma example_UserChannels:
  "UserChannels
     (example_p\<lparr>Database := example_tables\<lparr>channel := channel example_tables @ [tech_news_row]\<rparr>\<rparr>)
     alice
   = (Return [Some diary_channel, Some tech_news_channel],
      example_p\<lparr>Database := example_tables\<lparr>channel := channel example_tables @ [tech_news_row]\<rparr>\<rparr>)"
  by code_simp

lemma example_slugs:
  "slug_of ascii_ToLower ''Tech News'' = ''tech_news''"
  "slug_of ascii_ToLower ''tech news'' = ''tech_news''"
  "slug_of ascii_ToLower ''Diary'' = ''diary''"
  by code_simp+

theorem AddChannels_then_UserChannels_witness:
  "fatal_faults example_p = [] \<and> stmt_faults example_p = [] \<and>
   distinct (channel_keys (Database example_p)) \<and>
   AddChannels ascii_ToLower example_p alice [''Tech News'', ''Diary'', ''tech news'']
     = (Return ([None, None], None),
        example_p\<lparr>Database := example_tables\<lparr>channel := channel example_tables @ [tech_news_row]\<rparr>\<rparr>) \<and>
   UserChannels
     (example_p\<lparr>Database := example_tables\<lparr>channel := channel example_tables @ [tech_news_row]\<rparr>\<rparr>)
     alice
   = (Return [Some diary_channel, Some tech_news_channel],
      example_p\<lparr>Database := example_tables\<lparr>channel := channel example_tables @ [tech_news_row]\<rparr>\<rparr>) \<and>
   slug_of ascii_ToLower ''Tech News'' = ''tech_news'' \<and> slug_of ascii_ToLower ''tech news'' = ''tech_news'' \<and>
   slug_of ascii_ToLower ''Diary'' = ''diary'' \<and>
   (\<exists>created p1 chans.
     AddChannels ascii_ToLower example_p alice [''Tech News'', ''Diary'', ''tech news'']
       = (Return (created, None), p1) \<and>
     UserChannels p1 alice = (Return (map Some chans), p1) \<and>
     distinct (map Channel_Slug chans) \<and>
     (\<forall>label\<in>set [''Tech News'', ''Diary'', ''tech news'']. label \<noteq> [] \<longrightarrow>
        (\<exists>!c. c \<in> set chans \<and> Channel_Slug c = slug_of ascii_ToLower label)) \<and>
     (\<forall>c\<in>set chans.
        (\<exists>r\<in>set (channel (Database example_p)). c = Channel_of_row r) \<or>
        (Channel_Label c \<in> set [''Tech News'', ''Diary'', ''tech news''] \<and>
         Channel_Slug c = slug_of ascii_ToLower (Channel_Label c))))"
proof -
  have nf: "fatal_faults example_p = []" by (simp add: example_p_def)
  note c = AddChannels_then_UserChannels
             [where ToLower = ascii_ToLower and u = alice
                and names = "[''Tech News'', ''Diary'', ''tech news'']",
              OF nf example_stmt_faults example_keys]
  from nf example_stmt_faults example_keys example_AddChannels_three example_UserChannels
    example_slugs c
  show ?thesis by (intro conjI)
qed

subsection \<open>Claims about users\<close>

lemma QueryRow_no_rows:
  "q (Database p) = [] \<Longrightarrow>
   QueryRow q p = (Inl (if fst (stmt_fault p) then ErrDriver else ErrNoRows), snd (stmt_fault p))"
  by (cases "stmt_fault p") (auto simp: QueryRow_def stmt_fault_def split: list.splits)

lemma select_users_by_username_empty:
  "username \<notin> set (map users_username (users t)) \<Longrightarrow> select_users_by_username username t = []"
  by (auto simp: select_users_by_username_def filter_empty_conv)

lemma select_users_by_id_empty:
  "i \<notin> set (map users_id (users t)) \<Longrightarrow> select_users_by_id i t = []"
  by (auto simp: select_users_by_id_def filter_empty_conv)

text \<open>
  C6. When the statement can be prepared and no row has the username, \<open>GetUser\<close> returns
  a nil user with the flag false, and no error value; when no row has the identifier,
  \<open>GetUserById\<close> returns a nil user with the error of the scan, \<open>sql.ErrNoRows\<close> unless
  the driver failed.
\<close>

theorem missing_user_flag_versus_error:
  assumes "fst (Prepare p) = None"
    and "username \<notin> set (map users_username (users (Database p)))"
    and "i \<notin> set (map users_id (users (Database p)))"
  shows "fst (GetUser p username) = Return (None, False) \<and>
         fst (GetUserById p i) =
           Return (None, Some (if fst (stmt_fault p) then ErrDriver else ErrNoRows))"
proof -
  obtain p1 where pr: "Prepare p = (None, p1)" using assms(1) by (cases "Prepare p") auto
  from Prepare_state [OF pr] have d: "Database p1 = Database p" "stmt_faults p1 = stmt_faults p"
    by simp_all
  then have f: "fst (stmt_fault p1) = fst (stmt_fault p)"
    by (simp add: stmt_fault_def split: list.split)
  from assms(2) d have "select_users_by_username username (Database p1) = []"
    by (simp add: select_users_by_username_empty)
  from QueryRow_no_rows [of "select_users_by_username username", OF this] pr
  have 1: "fst (GetUser p username) = Return (None, False)"
    by (simp add: GetUser_def)
  from assms(3) d have "select_users_by_id i (Database p1) = []"
    by (simp add: select_users_by_id_empty)
  from QueryRow_no_rows [of "select_users_by_id i", OF this] pr f
  have 2: "fst (GetUserById p i) =
           Return (None, Some (if fst (stmt_fault p) then ErrDriver else ErrNoRows))"
    by (simp add: GetUserById_def)
  from 1 2 show ?thesis by blast
qed

lemma example_no_fatal: "fatal_faults (example_p\<lparr>stmt_faults := fs\<rparr>) = []"
  by (simp add: example_p_def)

lemma example_Prepare: "fst (Prepare example_p) = None"
  by code_simp

lemma example_no_bob: "''bob'' \<notin> set (map users_username (users (Database example_p)))"
  by code_simp

lemma example_no_7: "7 \<notin> set (map users_id (users (Database example_p)))"
  by code_simp

lemma example_no_stmt_fault: "fst (stmt_fault example_p) = False"
  by code_simp

theorem missing_user_flag_versus_error_witness:
  "fst (Prepare example_p) = None \<and>
   ''bob'' \<notin> set (map users_username (users (Database example_p))) \<and>
   7 \<notin> set (map users_id (users (Database example_p))) \<and>
   fst (GetUser example_p ''bob'') = Return (None, False) \<and>
   fst (GetUserById example_p 7) = Return (None, Some ErrNoRows)"
  using missing_user_flag_versus_error [OF example_Prepare example_no_bob example_no_7]
    example_Prepare example_no_bob example_no_7 example_no_stmt_fault
  by simp

lemma CreateUser_no_error:
  "CreateUser SetPassword p username password \<noteq> (Return (u, Some e), p')"
  by (auto simp: CreateUser_def Let_def split: prod.splits sum.splits option.splits outcome.splits)

text \<open>
  What \<open>CreateUser\<close> does when \<open>Begin\<close> and the two \<open>Prepare\<close> calls succeed, whatever
  the insert returns: it commits the transaction as the insert left it, and returns the
  user of the lookup after the commit with a nil error.
\<close>

lemma CreateUser_no_fatal:
  assumes "fatal_faults p = []"
  shows "\<exists>r tx1 p1 u found p2.
        Exec (insert_users username (SetPassword password)) \<lparr>work = Database p\<rparr>
             (p\<lparr>open_tx := Suc (open_tx p)\<rparr>) = (r, tx1, p1) \<and>
        GetUser (Commit tx1 p1) username = (Return (u, found), p2) \<and>
        CreateUser SetPassword p username password = (Return (u, None), p2) \<and>
        Database p2 = work tx1 \<and> open_tx p2 = open_tx p"
proof -
  define p0 where "p0 = p\<lparr>open_tx := Suc (open_tx p)\<rparr>"
  have nf0: "fatal_faults p0 = []" using assms by (simp add: p0_def)
  obtain r tx1 p1 where
    e: "Exec (insert_users username (SetPassword password)) \<lparr>work = Database p\<rparr> p0 = (r, tx1, p1)"
    by (cases "Exec (insert_users username (SetPassword password)) \<lparr>work = Database p\<rparr> p0") auto
  from Exec_state [OF e] nf0
  have k1: "fatal_faults p1 = []" "open_tx p1 = Suc (open_tx p)" by (simp_all add: p0_def)
  obtain out p2 where g: "GetUser (Commit tx1 p1) username = (out, p2)"
    by (cases "GetUser (Commit tx1 p1) username") auto
  from GetUser_state [OF g] k1
  have k2: "Database p2 = work tx1" "open_tx p2 = open_tx p" "out \<noteq> Fatal" "out \<noteq> Panic"
    by (simp_all add: Commit_def)
  then obtain u found where o: "out = Return (u, found)" by (cases out) auto
  from assms nf0 e g o
  have "CreateUser SetPassword p username password = (Return (u, None), p2)"
    by (simp add: CreateUser_def p0_def [symmetric])
  with e g o k2 show ?thesis unfolding p0_def by blast
qed

text \<open>
  C9. \<open>CreateUser\<close> never returns an error value. When \<open>Begin\<close> and the \<open>Prepare\<close> calls
  succeed, it returns whatever the insert returned (\<open>r\<close> is any result, an error too): the
  transaction is committed, and the user returned is the one that \<open>GetUser\<close> finds
  after the commit, nil when that lookup fails.
\<close>

theorem CreateUser_never_reports_error:
  "(\<forall>u e p'. CreateUser SetPassword p username password \<noteq> (Return (u, Some e), p')) \<and>
   (fatal_faults p = [] \<longrightarrow>
     (\<exists>r tx1 p1 u found p2.
        Exec (insert_users username (SetPassword password)) \<lparr>work = Database p\<rparr>
             (p\<lparr>open_tx := Suc (open_tx p)\<rparr>) = (r, tx1, p1) \<and>
        GetUser (Commit tx1 p1) username = (Return (u, found), p2) \<and>
        CreateUser SetPassword p username password = (Return (u, None), p2) \<and>
        Database p2 = work tx1 \<and> open_tx p2 = open_tx p))"
  using CreateUser_no_error [of SetPassword p username password]
    CreateUser_no_fatal [of p username SetPassword password]
  by blast

text \<open>
  On the example the username alice is taken: the insert fails on the uniqueness of the
  username, and \<open>CreateUser\<close> returns the user who was there, with her old password and a
  nil error. When the scan of the lookup fails as well, it returns nil and a nil error.
\<close>

lemma example_Exec_duplicate:
  "Exec (insert_users ''alice'' ''h2'') \<lparr>work = Database example_p\<rparr>
        (example_p\<lparr>open_tx := Suc (open_tx example_p)\<rparr>)
     = (Inl ErrConstraint, \<lparr>work = example_tables\<rparr>, example_p\<lparr>open_tx := 1\<rparr>)"
  by code_simp

lemma example_CreateUser_duplicate:
  "CreateUser (\<lambda>s. ''h2'') example_p ''alice'' ''pw'' = (Return (Some alice, None), example_p)"
  by code_simp

lemma example_CreateUser_lookup_fails:
  "CreateUser (\<lambda>s. ''h2'') (example_p\<lparr>stmt_faults := [False, True]\<rparr>) ''alice'' ''pw''
     = (Return (None, None), example_p)"
  by code_simp

theorem CreateUser_never_reports_error_witness:
  "fatal_faults example_p = [] \<and>
   Exec (insert_users ''alice'' ''h2'') \<lparr>work = Database example_p\<rparr>
        (example_p\<lparr>open_tx := Suc (open_tx example_p)\<rparr>)
     = (Inl ErrConstraint, \<lparr>work = example_tables\<rparr>, example_p\<lparr>open_tx := 1\<rparr>) \<and>
   CreateUser (\<lambda>s. ''h2'') example_p ''alice'' ''pw'' = (Return (Some alice, None), example_p) \<and>
   CreateUser (\<lambda>s. ''h2'') (example_p\<lparr>stmt_faults := [False, True]\<rparr>) ''alice'' ''pw''
     = (Return (None, None), example_p) \<and>
   CreateUser (\<lambda>s. ''h2'') example_p ''alice'' ''pw''
     \<noteq> (Return (Some alice, Some ErrConstraint), example_p)"
proof -
  have nf: "fatal_faults example_p = []" by (simp add: example_p_def)
  from CreateUser_never_reports_error [of "\<lambda>s. ''h2''" example_p "''alice''" "''pw''"]
  have "CreateUser (\<lambda>s. ''h2'') example_p ''alice'' ''pw''
     \<noteq> (Return (Some alice, Some ErrConstraint), example_p)" by blast
  with nf example_Exec_duplicate example_CreateUser_duplicate example_CreateUser_lookup_fails
  show ?thesis by blast
qed

subsection \<open>Claims about the feed\<close>

text \<open>
  The loop of \<open>GetAllPosts\<close>, started at the fetched row number \<open>j\<close>: when it returns, it
  has appended, for each row in turn, the post of the row when \<open>GetUserById\<close> resolved
  its user and nothing when \<open>GetUserById\<close> returned an error.
\<close>

lemma GetAllPosts_loop_resolves:
  "GetAllPosts_loop rows (q\<lparr>fatal_faults := drop j ffs, stmt_faults := drop j fs\<rparr>) posts
     = (Return ps, p') \<Longrightarrow>
   ps = posts @ concat (map (\<lambda>(k, r).
          resolved_post r (GetUserById (q\<lparr>fatal_faults := drop k ffs, stmt_faults := drop k fs\<rparr>)
                             (post_user_id r)))
        (zip [j..<j + length rows] rows))"
proof (induction rows arbitrary: j posts)
  case Nil
  then show ?case by simp
next
  case (Cons r rows)
  define s0 where "s0 = q\<lparr>fatal_faults := drop j ffs, stmt_faults := drop j fs\<rparr>"
  define s1 where "s1 = q\<lparr>fatal_faults := drop (Suc j) ffs, stmt_faults := drop (Suc j) fs\<rparr>"
  obtain o1 p1 where g: "GetUserById s0 (post_user_id r) = (o1, p1)"
    by (cases "GetUserById s0 (post_user_id r)") auto
  from Cons.prems g obtain u err where o1: "o1 = Return (u, err)"
    by (cases o1) (auto simp: s0_def)
  from GetUserById_Return_state [OF g [unfolded o1]] have p1: "p1 = s1"
    by (simp add: s0_def s1_def)
  define posts1 where "posts1 = posts @ resolved_post r (GetUserById s0 (post_user_id r))"
  have step: "GetAllPosts_loop (r # rows) s0 posts = GetAllPosts_loop rows s1 posts1"
    by (cases err) (simp_all add: g o1 p1 posts1_def resolved_post_def)
  with Cons.prems have l: "GetAllPosts_loop rows s1 posts1 = (Return ps, p')"
    by (simp add: s0_def)
  have z: "zip [j..<j + length (r # rows)] (r # rows) =
             (j, r) # zip [Suc j..<Suc j + length rows] rows"
    by (subst upt_rec) simp
  from Cons.IH [OF l [unfolded s1_def]]
  show ?case unfolding z posts1_def s0_def by simp
qed

text \<open>The loop returns when no \<open>Prepare\<close> fails.\<close>

lemma GetAllPosts_loop_total:
  "fatal_faults p = [] \<Longrightarrow> \<exists>ps p'. GetAllPosts_loop rows p posts = (Return ps, p')"
proof (induction rows arbitrary: p posts)
  case Nil
  show ?case by simp
next
  case (Cons r rows)
  obtain o1 p1 where g: "GetUserById p (post_user_id r) = (o1, p1)"
    by (cases "GetUserById p (post_user_id r)") auto
  from GetUserById_state [OF g] Cons.prems
  have nf1: "fatal_faults p1 = []" and o: "o1 \<noteq> Fatal" "o1 \<noteq> Panic" by simp_all
  then obtain u err where o1: "o1 = Return (u, err)" by (cases o1) auto
  show ?case
  proof (cases err)
    case None
    with g o1 Cons.IH [OF nf1] show ?thesis by simp
  next
    case (Some e)
    with g o1 Cons.IH [OF nf1] show ?thesis by simp
  qed
qed

text \<open>
  When \<open>GetAllPosts\<close> returns, \<open>Prepare\<close> and \<open>Query\<close> have succeeded, the loop over the
  fetched rows has returned, and the error is nil.
\<close>

lemma GetAllPosts_Return_loop:
  assumes "GetAllPosts p limit offset = (Return (ps, err), p')"
  shows "err = None \<and>
         (\<exists>p3. GetAllPosts_loop (select_post_page limit offset (Database p))
                  (p\<lparr>fatal_faults := drop 2 (fatal_faults p)\<rparr>) [] = (Return ps, p3))"
proof -
  obtain r1 p1 where pr: "Prepare p = (r1, p1)" by (cases "Prepare p") auto
  from assms pr have r1: "r1 = None" by (cases r1) (auto simp: GetAllPosts_def)
  from Prepare_state [OF pr] have p1: "p1 = snd (fatal_fault p)" .
  obtain r2 p2 where q: "Query (select_post_page limit offset) p1 = (r2, p2)"
    by (cases "Query (select_post_page limit offset) p1") auto
  from assms pr r1 q obtain rows where r2: "r2 = Inr rows"
    by (cases r2) (auto simp: GetAllPosts_def)
  obtain b0 p0 where f: "fatal_fault p1 = (b0, p0)" by (cases "fatal_fault p1") auto
  then have p0: "p0 = snd (fatal_fault p1)" by simp
  have d0: "Database p0 = Database p" unfolding p0 p1 by simp
  from q r2 f d0 have rows: "rows = select_post_page limit offset (Database p)"
    and p2s: "p2 = snd (fatal_fault p1)"
    by (cases b0; auto simp: Query_def)+
  have p2: "p2 = p\<lparr>fatal_faults := drop 2 (fatal_faults p)\<rparr>"
    unfolding p2s p1 by (intro Persistence_eqI) (simp_all add: fatal_fault_snd numeral_2_eq_2)
  from assms pr r1 q r2 rows p2 show ?thesis
    by (auto simp: GetAllPosts_def split: prod.splits outcome.splits)
qed

text \<open>
  C7. Whenever \<open>GetAllPosts\<close> returns, the page it returns is made of the fetched rows
  in their order, each row looked up with \<open>GetUserById\<close>: a row whose user is resolved
  gives its post with that user, and a row whose lookup returns an error gives nothing;
  the error returned is nil. And \<open>GetAllPosts\<close> does return when \<open>Prepare\<close> and \<open>Query\<close>
  succeed.
\<close>

theorem GetAllPosts_skips_unresolved_users:
  "(\<forall>ps err p'. GetAllPosts p limit offset = (Return (ps, err), p') \<longrightarrow>
      ps = concat (map (\<lambda>(k, r).
              resolved_post r (GetUserById (feed_lookup_state p k) (post_user_id r)))
            (zip [0..<length (select_post_page limit offset (Database p))]
                 (select_post_page limit offset (Database p)))) \<and>
      err = None) \<and>
   (fatal_faults p = [] \<longrightarrow>
      (\<exists>ps p'. GetAllPosts p limit offset = (Return (ps, None), p')))"
proof (intro conjI allI impI)
  fix ps err p'
  assume a: "GetAllPosts p limit offset = (Return (ps, err), p')"
  have s: "p\<lparr>fatal_faults := drop 0 (drop 2 (fatal_faults p)),
             stmt_faults := drop 0 (stmt_faults p)\<rparr>
           = p\<lparr>fatal_faults := drop 2 (fatal_faults p)\<rparr>"
    by (intro Persistence_eqI) simp_all
  from GetAllPosts_Return_loop [OF a] obtain p3 where
    l: "GetAllPosts_loop (select_post_page limit offset (Database p))
          (p\<lparr>fatal_faults := drop 0 (drop 2 (fatal_faults p)),
             stmt_faults := drop 0 (stmt_faults p)\<rparr>) [] = (Return ps, p3)"
    unfolding s by blast
  have ls: "p\<lparr>fatal_faults := drop k (drop 2 (fatal_faults p)),
              stmt_faults := drop k (stmt_faults p)\<rparr> = feed_lookup_state p k" for k
    by (intro Persistence_eqI) (simp_all add: feed_lookup_state_def)
  from GetAllPosts_loop_resolves [OF l]
  show "ps = concat (map (\<lambda>(k, r).
              resolved_post r (GetUserById (feed_lookup_state p k) (post_user_id r)))
            (zip [0..<length (select_post_page limit offset (Database p))]
                 (select_post_page limit offset (Database p))))"
    unfolding ls by simp
  from GetAllPosts_Return_loop [OF a] show "err = None" by simp
next
  assume nf: "fatal_faults p = []"
  from GetAllPosts_loop_total [OF nf, of "select_post_page limit offset (Database p)" "[]"]
  obtain ps p' where
    "GetAllPosts_loop (select_post_page limit offset (Database p)) p [] = (Return ps, p')"
    by blast
  with nf show "\<exists>ps p'. GetAllPosts p limit offset = (Return (ps, None), p')"
    by (simp add: GetAllPosts_def)
qed

text \<open>
  On the example feed the newest post belongs to a user of whom there is no row: of the
  two rows fetched for the first page, the lookup of the first fails and the page holds
  the post of the second only, with a nil error.
\<close>

lemma example_feed_rows: "select_post_page 2 0 (Database feed_p) = [orphan_row, third_row]"
  by code_simp

lemma example_feed_orphan:
  "GetUserById (feed_lookup_state feed_p 0) (post_user_id orphan_row)
     = (Return (None, Some ErrNoRows), feed_p)"
  by code_simp

lemma example_feed_third:
  "GetUserById (feed_lookup_state feed_p 1) (post_user_id third_row)
     = (Return (Some alice, None), feed_p)"
  by code_simp

lemma example_feed_page1: "GetAllPosts feed_p 2 0 = (Return ([Some third_post], None), feed_p)"
  by code_simp

lemma example_feed_page2:
  "GetAllPosts feed_p 2 2 = (Return ([Some hello_post, Some fourth_post], None), feed_p)"
  by code_simp

theorem GetAllPosts_skips_unresolved_users_witness:
  "fatal_faults feed_p = [] \<and>
   GetAllPosts feed_p 2 0 = (Return ([Some third_post], None), feed_p) \<and>
   select_post_page 2 0 (Database feed_p) = [orphan_row, third_row] \<and>
   GetUserById (feed_lookup_state feed_p 0) (post_user_id orphan_row)
     = (Return (None, Some ErrNoRows), feed_p) \<and>
   GetUserById (feed_lookup_state feed_p 1) (post_user_id third_row)
     = (Return (Some alice, None), feed_p) \<and>
   [Some third_post] =
     resolved_post orphan_row (GetUserById (feed_lookup_state feed_p 0) (post_user_id orphan_row)) @
     resolved_post third_row (GetUserById (feed_lookup_state feed_p 1) (post_user_id third_row))"
proof -
  have nf: "fatal_faults feed_p = []" by (simp add: feed_p_def)
  note c = GetAllPosts_skips_unresolved_users [of feed_p 2 0]
  from c [THEN conjunct1, rule_format, OF example_feed_page1]
  have "[Some third_post] =
     resolved_post orphan_row (GetUserById (feed_lookup_state feed_p 0) (post_user_id orphan_row)) @
     resolved_post third_row (GetUserById (feed_lookup_state feed_p 1) (post_user_id third_row))"
    by (simp add: example_feed_rows upt_conv_Cons)
  with nf example_feed_page1 example_feed_rows example_feed_orphan example_feed_third
  show ?thesis by (intro conjI)
qed

text \<open>\<open>GetAllPosts\<close> reads: it leaves the committed tables as they are.\<close>

lemma GetAllPosts_loop_state:
  "GetAllPosts_loop rows p posts = (out, p') \<Longrightarrow> Database p' = Database p"
proof (induction rows arbitrary: p posts)
  case Nil
  then show ?case by simp
next
  case (Cons r rows)
  obtain o1 p1 where g: "GetUserById p (post_user_id r) = (o1, p1)"
    by (cases "GetUserById p (post_user_id r)") auto
  from GetUserById_state [OF g] have d: "Database p1 = Database p" by simp
  show ?case
  proof (cases o1)
    case (Return ue)
    obtain u err where ue: "ue = (u, err)" by (cases ue) auto
    show ?thesis
    proof (cases err)
      case None
      with Cons.prems g Return ue d Cons.IH show ?thesis by auto
    next
      case (Some e)
      with Cons.prems g Return ue d Cons.IH show ?thesis by auto
    qed
  next
    case Fatal
    with Cons.prems g d show ?thesis by auto
  next
    case Panic
    with Cons.prems g d show ?thesis by auto
  qed
qed

text \<open>
  The posts that the loop returns are non-nil and follow the fetched rows: their
  identifiers and timestamps are a subsequence of those of the rows.
\<close>

lemma GetAllPosts_loop_subseq:
  "GetAllPosts_loop rows p posts = (Return posts', p') \<Longrightarrow>
   \<exists>ps. posts' = posts @ map Some ps \<and> subseq (map post_key ps) (map row_key rows)"
proof (induction rows arbitrary: p posts)
  case Nil
  then show ?case by simp
next
  case (Cons r rows)
  obtain o1 p1 where g: "GetUserById p (post_user_id r) = (o1, p1)"
    by (cases "GetUserById p (post_user_id r)") auto
  show ?case
  proof (cases o1)
    case (Return ue)
    obtain u err where ue: "ue = (u, err)" by (cases ue) auto
    show ?thesis
    proof (cases err)
      case None
      define x where "x = \<lparr>Post_Id = post_id r, Post_UUID = post_uuid r, Post_User = u,
                            Post_Body = post_body r, Post_Posted = post_posted r\<rparr>"
      from Cons.prems g Return ue None
      have "GetAllPosts_loop rows p1 (posts @ [Some x]) = (Return posts', p')"
        by (simp add: x_def)
      from Cons.IH [OF this] obtain ps where
        ps: "posts' = (posts @ [Some x]) @ map Some ps" "subseq (map post_key ps) (map row_key rows)"
        by blast
      have "post_key x = row_key r" by (simp add: post_key_def row_key_def x_def)
      with ps have "posts' = posts @ map Some (x # ps) \<and>
                    subseq (map post_key (x # ps)) (map row_key (r # rows))" by simp
      then show ?thesis by blast
    next
      case (Some e)
      with Cons.prems g Return ue
      have "GetAllPosts_loop rows p1 posts = (Return posts', p')" by simp
      from Cons.IH [OF this] show ?thesis by auto
    qed
  next
    case Fatal
    with Cons.prems g show ?thesis by simp
  next
    case Panic
    with Cons.prems g show ?thesis by simp
  qed
qed

lemma subseq_sorted_wrt:
  "subseq xs ys \<Longrightarrow> sorted_wrt R ys \<Longrightarrow> sorted_wrt R xs"
proof (induction rule: list_emb.induct)
  case (list_emb_Nil ys)
  then show ?case by simp
next
  case (list_emb_Cons xs ys y)
  then show ?case by simp
next
  case (list_emb_Cons2 x y xs ys)
  then show ?case by (auto dest: list_emb_set)
qed

lemma subseq_subset: "subseq xs ys \<Longrightarrow> set xs \<subseteq> set ys"
  by (induction rule: list_emb.induct) auto

lemma Query_rows:
  "Query q p = (Inr rows, p') \<Longrightarrow> rows = q (Database p) \<and> Database p' = Database p"
proof -
  assume a: "Query q p = (Inr rows, p')"
  obtain b p0 where f: "fatal_fault p = (b, p0)" by (cases "fatal_fault p") auto
  with fatal_fault_keeps(1) [of p] have "Database p0 = Database p" by simp
  with a f show ?thesis by (cases b) (auto simp: Query_def)
qed

lemma GetAllPosts_Return:
  assumes "GetAllPosts p limit offset = (Return (page, e), p')"
  shows "Database p' = Database p \<and>
         (\<exists>ps. page = map Some ps \<and>
            subseq (map post_key ps) (map row_key (select_post_page limit offset (Database p))))"
proof -
  obtain r1 p1 where pr: "Prepare p = (r1, p1)" by (cases "Prepare p") auto
  from Prepare_state [OF pr] have d1: "Database p1 = Database p" by simp
  from assms pr have r1: "r1 = None" by (cases r1) (auto simp: GetAllPosts_def)
  obtain r2 p2 where q: "Query (select_post_page limit offset) p1 = (r2, p2)"
    by (cases "Query (select_post_page limit offset) p1") auto
  from assms pr r1 q obtain rows where r2: "r2 = Inr rows"
    by (cases r2) (auto simp: GetAllPosts_def)
  from Query_rows [of "select_post_page limit offset" p1 rows p2] q r2 d1
  have rows: "rows = select_post_page limit offset (Database p)" and d2: "Database p2 = Database p"
    by auto
  obtain o3 p3 where l: "GetAllPosts_loop rows p2 [] = (o3, p3)"
    by (cases "GetAllPosts_loop rows p2 []") auto
  from assms pr r1 q r2 l have o3: "o3 = Return page" and p3: "p3 = p'"
    by (cases o3; simp add: GetAllPosts_def)+
  from GetAllPosts_loop_state [OF l] d2 p3 have "Database p' = Database p" by simp
  moreover from GetAllPosts_loop_subseq [of rows p2 "[]" page p3] l o3 rows
  have "\<exists>ps. page = map Some ps \<and>
            subseq (map post_key ps) (map row_key (select_post_page limit offset (Database p)))"
    by simp
  ultimately show ?thesis by blast
qed

text \<open>The sorted feed: timestamps descend, and identifiers stay distinct.\<close>

lemma feed_sorted:
  "sorted_wrt (\<lambda>a b. snd b \<le> snd a) (map row_key (sort_key (\<lambda>r. - post_posted r) rows))"
proof -
  have "sorted (map (\<lambda>r. - post_posted r) (sort_key (\<lambda>r. - post_posted r) rows))"
    by (rule sorted_sort_key)
  then show ?thesis by (simp add: sorted_map sorted_wrt_map row_key_def)
qed

lemma feed_distinct:
  "distinct (map post_id rows) \<Longrightarrow>
   distinct (map fst (map row_key (sort_key (\<lambda>r. - post_posted r) rows)))"
  by (simp add: distinct_map row_key_def comp_def)

text \<open>
  The identifiers of the post table stay distinct: a new rowid is larger than every
  rowid of the table.
\<close>

lemma fold_max_ge: "a \<le> fold max ids (a :: int)"
  by (induction ids arbitrary: a) (auto intro: order_trans [OF max.cobounded2])

lemma fold_max_bound: "x \<in> set ids \<Longrightarrow> x \<le> fold max ids (a :: int)"
proof (induction ids arbitrary: a)
  case Nil
  then show ?case by simp
next
  case (Cons y ids)
  show ?case
  proof (cases "x = y")
    case True
    have "y \<le> max y a" by simp
    also have "\<dots> \<le> fold max ids (max y a)" by (rule fold_max_ge)
    finally show ?thesis using True by simp
  next
    case False
    with Cons.prems have "x \<in> set ids" by simp
    from Cons.IH [OF this] show ?thesis by simp
  qed
qed

lemma next_id_fresh: "next_id ids \<notin> set ids"
proof
  assume "next_id ids \<in> set ids"
  from fold_max_bound [OF this, of 0] show False by (simp add: next_id_def)
qed

lemma insert_post_distinct:
  "insert_post user_id uu body posted t = Inr (i, t') \<Longrightarrow> distinct (map post_id (post t)) \<Longrightarrow>
   distinct (map post_id (post t'))"
  using next_id_fresh [of "map post_id (post t)"]
  by (auto simp: insert_post_def Let_def split: if_splits)

text \<open>
  C8. For a limit \<open>N\<close> that is not negative, on a post table with distinct identifiers,
  the page at offset 0 has at most \<open>N\<close> posts, in descending order of their timestamps;
  the page that the next call returns at offset \<open>N\<close> shares no post with it, and none of
  its posts is newer than a post of the first page.
\<close>

theorem GetAllPosts_pages:
  assumes "0 \<le> N"
    and "distinct (map post_id (post (Database p)))"
    and "GetAllPosts p N 0 = (Return (page1, e1), p1)"
    and "GetAllPosts p1 N N = (Return (page2, e2), p2)"
  shows "\<exists>ps1 ps2. page1 = map Some ps1 \<and> page2 = map Some ps2 \<and>
           length ps1 \<le> nat N \<and>
           sorted_wrt (\<lambda>a b. Post_Posted b \<le> Post_Posted a) ps1 \<and>
           set (map Post_Id ps1) \<inter> set (map Post_Id ps2) = {} \<and>
           (\<forall>a\<in>set ps1. \<forall>b\<in>set ps2. Post_Posted b \<le> Post_Posted a)"
proof -
  define s where "s = map row_key (sort_key (\<lambda>r. - post_posted r) (post (Database p)))"
  define n where "n = nat N"
  have rows1: "map row_key (select_post_page N 0 (Database p)) = take n s"
    using assms(1) by (simp add: select_post_page_def s_def n_def Let_def take_map)
  have rows2: "map row_key (select_post_page N N (Database p)) = take n (drop n s)"
    using assms(1) by (simp add: select_post_page_def s_def n_def Let_def take_map drop_map)
  from GetAllPosts_Return [OF assms(3)] rows1 obtain ps1 where
    d1: "Database p1 = Database p" and 1: "page1 = map Some ps1" and
    s1: "subseq (map post_key ps1) (take n s)" by auto
  from GetAllPosts_Return [OF assms(4)] d1 rows2 obtain ps2 where
    2: "page2 = map Some ps2" and s2: "subseq (map post_key ps2) (take n (drop n s))" by auto
  have srt: "sorted_wrt (\<lambda>a b. snd b \<le> snd a) s" unfolding s_def by (rule feed_sorted)
  have dst: "distinct (map fst s)" unfolding s_def using assms(2) by (rule feed_distinct)
  have len: "length ps1 \<le> nat N"
    using list_emb_length [OF s1] by (simp add: n_def)
  have "sorted_wrt (\<lambda>a b. snd b \<le> snd a) (map post_key ps1)"
    using s1 srt by (auto intro: subseq_sorted_wrt sorted_wrt_take)
  then have sorted1: "sorted_wrt (\<lambda>a b. Post_Posted b \<le> Post_Posted a) ps1"
    by (simp add: sorted_wrt_map post_key_def)
  have in1: "post_key a \<in> set (take n s)" if "a \<in> set ps1" for a
    using subseq_subset [OF s1] that by auto
  have in2: "post_key b \<in> set (drop n s)" if "b \<in> set ps2" for b
    using subseq_subset [OF s2] that by (auto dest: in_set_takeD)
  have "sorted_wrt (\<lambda>a b. snd b \<le> snd a) (take n s @ drop n s)" using srt by simp
  then have "\<forall>x\<in>set (take n s). \<forall>y\<in>set (drop n s). snd y \<le> snd x"
    unfolding sorted_wrt_append by blast
  then have ord: "snd y \<le> snd x" if "x \<in> set (take n s)" "y \<in> set (drop n s)" for x y
    using that by blast
  have "distinct (map fst (take n s @ drop n s))" using dst by simp
  then have "set (map fst (take n s)) \<inter> set (map fst (drop n s)) = {}"
    unfolding map_append distinct_append by blast
  then have dis: "fst x \<noteq> fst y" if "x \<in> set (take n s)" "y \<in> set (drop n s)" for x y
    using that by (metis disjoint_iff image_eqI set_map)
  have disj: "set (map Post_Id ps1) \<inter> set (map Post_Id ps2) = {}"
  proof (rule ccontr)
    assume "set (map Post_Id ps1) \<inter> set (map Post_Id ps2) \<noteq> {}"
    then obtain a b where ab: "a \<in> set ps1" "b \<in> set ps2" "Post_Id a = Post_Id b" by auto
    from dis [OF in1 [OF ab(1)] in2 [OF ab(2)]] ab(3) show False by (simp add: post_key_def)
  qed
  have next_page: "\<forall>a\<in>set ps1. \<forall>b\<in>set ps2. Post_Posted b \<le> Post_Posted a"
  proof (intro ballI)
    fix a b
    assume "a \<in> set ps1" "b \<in> set ps2"
    from ord [OF in1 [OF this(1)] in2 [OF this(2)]] show "Post_Posted b \<le> Post_Posted a"
      by (simp add: post_key_def)
  qed
  from 1 2 len sorted1 disj next_page show ?thesis by blast
qed

lemma example_feed_distinct: "distinct (map post_id (post (Database feed_p)))"
  by code_simp

theorem GetAllPosts_pages_witness:
  "(0::int) \<le> 2 \<and>
   distinct (map post_id (post (Database feed_p))) \<and>
   GetAllPosts feed_p 2 0 = (Return ([Some third_post], None), feed_p) \<and>
   GetAllPosts feed_p 2 2 = (Return ([Some hello_post, Some fourth_post], None), feed_p) \<and>
   (\<exists>ps1 ps2. [Some third_post] = map Some ps1 \<and>
      [Some hello_post, Some fourth_post] = map Some ps2 \<and>
      length ps1 \<le> nat 2 \<and>
      sorted_wrt (\<lambda>a b. Post_Posted b \<le> Post_Posted a) ps1 \<and>
      set (map Post_Id ps1) \<inter> set (map Post_Id ps2) = {} \<and>
      (\<forall>a\<in>set ps1. \<forall>b\<in>set ps2. Post_Posted b \<le> Post_Posted a))"
proof -
  have n: "(0::int) \<le> 2" by simp
  note c = GetAllPosts_pages [OF n example_feed_distinct example_feed_page1 example_feed_page2]
  from n example_feed_distinct example_feed_page1 example_feed_page2 c
  show ?thesis by (intro conjI)
qed

subsection \<open>Claims about post creation and transactions\<close>

lemma surviving_Nil [simp]: "surviving xs [] = xs"
  by (cases xs) simp_all

lemma Exec_insert_postchannel:
  "Exec (insert_postchannel i cid) tx p =
     (case stmt_faults p of
        [] \<Rightarrow> (Inr (int (length (postchannel (work tx))) + 1),
               tx\<lparr>work := (work tx)\<lparr>postchannel := postchannel (work tx) @
                 [\<lparr>postchannel_post_id = i, postchannel_channel_id = cid\<rparr>]\<rparr>\<rparr>, p)
      | f # fs \<Rightarrow>
          if f then (Inl ErrDriver, tx, p\<lparr>stmt_faults := fs\<rparr>)
          else (Inr (int (length (postchannel (work tx))) + 1),
               tx\<lparr>work := (work tx)\<lparr>postchannel := postchannel (work tx) @
                 [\<lparr>postchannel_post_id = i, postchannel_channel_id = cid\<rparr>]\<rparr>\<rparr>,
               p\<lparr>stmt_faults := fs\<rparr>))"
  by (simp add: Exec_def insert_postchannel_def stmt_fault_def split: list.split)

text \<open>
  The loop of \<open>AddPost\<close> on channels that are not nil: it returns, and the transaction has
  one more join row for every channel whose insert did not fail.
\<close>

lemma AddPost_loop_closed:
  "AddPost_loop i (map Some cs) tx p =
     (Return (tx\<lparr>work := (work tx)\<lparr>postchannel := postchannel (work tx) @
                 map (join_row i) (surviving cs (stmt_faults p))\<rparr>\<rparr>),
      p\<lparr>stmt_faults := drop (length cs) (stmt_faults p)\<rparr>)"
proof (induction cs arbitrary: tx p)
  case Nil
  show ?case by simp
next
  case (Cons c cs)
  show ?case
  proof (cases "stmt_faults p")
    case Nil
    then show ?thesis
      by (simp add: Exec_insert_postchannel Cons.IH join_row_def)
  next
    case (Cons f fs)
    then show ?thesis
      by (cases f) (simp_all add: Exec_insert_postchannel Cons.IH join_row_def)
  qed
qed

lemma GetPost_state:
  assumes "GetPost p i = (out, p')"
  shows "Database p' = Database p \<and> open_tx p' = open_tx p"
proof -
  obtain r1 p1 where pr: "Prepare p = (r1, p1)" by (cases "Prepare p") auto
  from Prepare_state [OF pr] have k1: "Database p1 = Database p" "open_tx p1 = open_tx p"
    by simp_all
  obtain r2 p2 where q: "QueryRow (select_post_by_id i) p1 = (r2, p2)"
    by (cases "QueryRow (select_post_by_id i) p1") auto
  from QueryRow_state [OF q] k1 have k2: "Database p2 = Database p" "open_tx p2 = open_tx p"
    by simp_all
  show ?thesis
  proof (cases r1)
    case (Some e)
    with assms pr k1 show ?thesis by (auto simp: GetPost_def)
  next
    case None
    show ?thesis
    proof (cases r2)
      case (Inl e)
      with assms pr None q k2 show ?thesis by (auto simp: GetPost_def)
    next
      case (Inr row)
      obtain user_id uu body posted where row: "row = (user_id, uu, body, posted)"
        by (cases row) auto
      obtain o3 p3 where g: "GetUserById p2 user_id = (o3, p3)"
        by (cases "GetUserById p2 user_id") auto
      from GetUserById_state [OF g] k2
      have k3: "Database p3 = Database p" "open_tx p3 = open_tx p" by simp_all
      from assms pr None q Inr row g have "p' = p3"
        by (auto simp: GetPost_def split: outcome.splits option.splits)
      with k3 show ?thesis by simp
    qed
  qed
qed

text \<open>
  \<open>GetPost\<close> returns a nil post with every error, so that \<open>AddPost\<close>, which returns
  nil and the error when \<open>GetPost\<close> failed and the post otherwise, returns what
  \<open>GetPost\<close> returned.
\<close>

lemma GetPost_error_nil:
  "GetPost p i = (Return (pst, Some e), p') \<Longrightarrow> pst = None"
  by (auto simp: GetPost_def split: prod.splits option.splits sum.splits outcome.splits)

lemma AddPost_returns_GetPost:
  "(case GetPost p i of
      (Return (pst, Some err), p6) \<Rightarrow> (Return (None, Some err), p6)
    | (Return (pst, None), p6) \<Rightarrow> (Return (pst, None), p6)
    | (Fatal, p6) \<Rightarrow> (Fatal, p6)
    | (Panic, p6) \<Rightarrow> (Panic, p6)) = GetPost p i"
proof -
  obtain out p' where g: "GetPost p i = (out, p')" by (cases "GetPost p i") auto
  show ?thesis
  proof (cases out)
    case (Return pe)
    obtain pst err where pe: "pe = (pst, err)" by (cases pe) auto
    show ?thesis
    proof (cases err)
      case None
      with g Return pe show ?thesis by simp
    next
      case (Some e)
      with g Return pe GetPost_error_nil [of p i pst e p'] show ?thesis by simp
    qed
  next
    case Fatal
    with g show ?thesis by simp
  next
    case Panic
    with g show ?thesis by simp
  qed
qed

text \<open>
  A successful insert of the post row: the token was not in the table, the identifier is
  the next one, the row is appended in the transaction, and the committed tables are
  untouched.
\<close>

lemma Exec_insert_post:
  assumes "Exec (insert_post uid uu body now) tx p = (Inr i, tx1, q)"
  shows "uu \<notin> set (map post_uuid (post (work tx)))"
    and "i = next_id (map post_id (post (work tx)))"
    and "tx1 = tx\<lparr>work := (work tx)\<lparr>post := post (work tx) @
            [\<lparr>post_id = i, post_uuid = uu, post_user_id = uid, post_body = body,
              post_posted = now\<rparr>]\<rparr>\<rparr>"
    and "q = snd (stmt_fault p)"
  using assms
  by (auto simp: Exec_def insert_post_def Let_def
           split: prod.splits bool.splits sum.splits if_splits)

text \<open>
  \<open>AddPost\<close> when \<open>Begin\<close> and the \<open>Prepare\<close> calls succeed, the token was generated and
  the insert of the post row succeeded (\<open>q\<close> is the handle after that call, \<open>i\<close> the new
  identifier), on channels that are not nil: the result is that of \<open>GetPost\<close> for the new
  identifier on the committed tables, which hold the post row and the join rows whose
  inserts did not fail.
\<close>

lemma AddPost_closed:
  assumes "fatal_faults p = []"
    and "Exec (insert_post (User_Id u) uu body now) \<lparr>work = Database p\<rparr>
              (p\<lparr>open_tx := Suc (open_tx p)\<rparr>) = (Inr i, tx1, q)"
  shows "AddPost p u body (map Some cs) (Inr uu) now =
           GetPost (q\<lparr>Database := (Database p)
                       \<lparr>post := post (Database p) @
                          [\<lparr>post_id = i, post_uuid = uu, post_user_id = User_Id u,
                            post_body = body, post_posted = now\<rparr>],
                        postchannel := postchannel (Database p) @
                          map (join_row i) (surviving cs (stmt_faults q))\<rparr>,
                      open_tx := open_tx p,
                      stmt_faults := drop (length cs) (stmt_faults q)\<rparr>) i"
proof -
  define p0 where "p0 = p\<lparr>open_tx := Suc (open_tx p)\<rparr>"
  define t1 where "t1 = (Database p)\<lparr>post := post (Database p) @
                          [\<lparr>post_id = i, post_uuid = uu, post_user_id = User_Id u,
                            post_body = body, post_posted = now\<rparr>]\<rparr>"
  have nf0: "fatal_faults p0 = []" using assms(1) by (simp add: p0_def)
  have e: "Exec (insert_post (User_Id u) uu body now) \<lparr>work = Database p\<rparr> p0 = (Inr i, tx1, q)"
    using assms(2) by (simp add: p0_def)
  from Exec_insert_post(3) [OF e] have tx1: "tx1 = \<lparr>work = t1\<rparr>" by (simp add: t1_def)
  from Exec_insert_post(4) [OF e] nf0
  have nfq: "fatal_faults q = []" and oq: "open_tx q = Suc (open_tx p)"
    by (simp_all add: p0_def)
  have c: "Commit (\<lparr>work = t1\<rparr>\<lparr>work := t1\<lparr>postchannel := postchannel t1 @
                 map (join_row i) (surviving cs (stmt_faults q))\<rparr>\<rparr>)
             (q\<lparr>stmt_faults := drop (length cs) (stmt_faults q)\<rparr>)
           = q\<lparr>Database := (Database p)
                       \<lparr>post := post (Database p) @
                          [\<lparr>post_id = i, post_uuid = uu, post_user_id = User_Id u,
                            post_body = body, post_posted = now\<rparr>],
                        postchannel := postchannel (Database p) @
                          map (join_row i) (surviving cs (stmt_faults q))\<rparr>,
                      open_tx := open_tx p,
                      stmt_faults := drop (length cs) (stmt_faults q)\<rparr>"
    using oq by (simp add: Commit_def t1_def)
  show ?thesis
    using assms(1) nf0 nfq e [unfolded tx1] c
    by (simp add: AddPost_def p0_def [symmetric] LastInsertId_def AddPost_loop_closed
          AddPost_returns_GetPost)
qed

text \<open>
  The loop of \<open>AddPost\<close> on a list that holds a nil channel: it panics, at the first nil,
  and the committed tables and the open transaction are as they were.
\<close>

lemma AddPost_loop_nil:
  "None \<in> set channels \<Longrightarrow>
   \<exists>p'. AddPost_loop i channels tx p = (Panic, p') \<and>
        Database p' = Database p \<and> open_tx p' = open_tx p"
proof (induction channels arbitrary: tx p)
  case Nil
  then show ?case by simp
next
  case (Cons c channels)
  show ?case
  proof (cases c)
    case None
    then show ?thesis by simp
  next
    case (Some ch)
    with Cons.prems have n: "None \<in> set channels" by simp
    obtain r tx1 p1 where e: "Exec (insert_postchannel i (Channel_Id ch)) tx p = (r, tx1, p1)"
      by (cases "Exec (insert_postchannel i (Channel_Id ch)) tx p") auto
    from Exec_state [OF e] have k: "Database p1 = Database p" "open_tx p1 = open_tx p"
      by simp_all
    from Cons.IH [OF n, of tx1 p1] k Some e show ?thesis by simp
  qed
qed

lemma AddPost_nil_channel:
  assumes "fatal_faults p = []"
    and "Exec (insert_post (User_Id u) uu body now) \<lparr>work = Database p\<rparr>
              (p\<lparr>open_tx := Suc (open_tx p)\<rparr>) = (Inr i, tx1, q)"
    and "None \<in> set channels"
  shows "\<exists>p'. AddPost p u body channels (Inr uu) now = (Panic, p') \<and>
              Database p' = Database p \<and> open_tx p' = Suc (open_tx p)"
proof -
  define p0 where "p0 = p\<lparr>open_tx := Suc (open_tx p)\<rparr>"
  have nf0: "fatal_faults p0 = []" using assms(1) by (simp add: p0_def)
  have e: "Exec (insert_post (User_Id u) uu body now) \<lparr>work = Database p\<rparr> p0 = (Inr i, tx1, q)"
    using assms(2) by (simp add: p0_def)
  from Exec_insert_post(4) [OF e] nf0
  have kq: "fatal_faults q = []" "open_tx q = Suc (open_tx p)" "Database q = Database p"
    by (simp_all add: p0_def)
  from AddPost_loop_nil [OF assms(3), of i tx1 q] obtain p' where
    l: "AddPost_loop i channels tx1 q = (Panic, p')" and
    k: "Database p' = Database q" "open_tx p' = open_tx q" by blast
  from assms(1) nf0 kq(1) e l
  have "AddPost p u body channels (Inr uu) now = (Panic, p')"
    by (simp add: AddPost_def p0_def [symmetric] LastInsertId_def)
  with k kq show ?thesis by simp
qed

text \<open>
  C2, as the code has it. \<open>AddPost\<close> with the token \<open>uu\<close> that \<open>uuid.NewV4\<close> returned and
  channels that are not nil, when \<open>Begin\<close> and the \<open>Prepare\<close> calls succeed and the
  insert of the post row succeeded with the identifier \<open>i\<close>: the token was not in the
  table and the identifier is new; the transaction is committed, with the post row and
  with one join row for every channel whose insert did not fail, whatever the other
  join inserts returned; and the result is that of \<open>GetPost\<close> for the new identifier on
  the committed tables.
\<close>

theorem AddPost_commits_then_rereads:
  assumes "fatal_faults p = []"
    and "Exec (insert_post (User_Id u) uu body now) \<lparr>work = Database p\<rparr>
              (p\<lparr>open_tx := Suc (open_tx p)\<rparr>) = (Inr i, tx1, q)"
  shows "\<exists>p1.
     AddPost p u body (map Some cs) (Inr uu) now = GetPost p1 i \<and>
     open_tx p1 = open_tx p \<and>
     uu \<notin> set (map post_uuid (post (Database p))) \<and>
     i \<notin> set (map post_id (post (Database p))) \<and>
     post (Database p1) = post (Database p) @
        [\<lparr>post_id = i, post_uuid = uu, post_user_id = User_Id u, post_body = body,
          post_posted = now\<rparr>] \<and>
     postchannel (Database p1) = postchannel (Database p) @
        map (join_row i) (surviving cs (stmt_faults q)) \<and>
     users (Database p1) = users (Database p) \<and> channel (Database p1) = channel (Database p)"
proof -
  define p1 where "p1 = q\<lparr>Database := (Database p)
                       \<lparr>post := post (Database p) @
                          [\<lparr>post_id = i, post_uuid = uu, post_user_id = User_Id u,
                            post_body = body, post_posted = now\<rparr>],
                        postchannel := postchannel (Database p) @
                          map (join_row i) (surviving cs (stmt_faults q))\<rparr>,
                      open_tx := open_tx p,
                      stmt_faults := drop (length cs) (stmt_faults q)\<rparr>"
  have "AddPost p u body (map Some cs) (Inr uu) now = GetPost p1 i"
    unfolding p1_def by (rule AddPost_closed [OF assms])
  moreover have "open_tx p1 = open_tx p" by (simp add: p1_def)
  moreover from Exec_insert_post(1) [OF assms(2)]
  have "uu \<notin> set (map post_uuid (post (Database p)))" by simp
  moreover from Exec_insert_post(2) [OF assms(2)] next_id_fresh [of "map post_id (post (Database p))"]
  have "i \<notin> set (map post_id (post (Database p)))" by simp
  moreover have "post (Database p1) = post (Database p) @
        [\<lparr>post_id = i, post_uuid = uu, post_user_id = User_Id u, post_body = body,
          post_posted = now\<rparr>]"
    "postchannel (Database p1) = postchannel (Database p) @
        map (join_row i) (surviving cs (stmt_faults q))"
    "users (Database p1) = users (Database p)" "channel (Database p1) = channel (Database p)"
    by (simp_all add: p1_def)
  ultimately show ?thesis by blast
qed

text \<open>
  On the example the insert of the post row succeeds, the join insert for Diary fails
  and the one for Tech News succeeds: the post and the second join row are committed,
  and the post is returned.
\<close>

lemma example_AddPost_join_fault:
  "AddPost (example_p\<lparr>stmt_faults := [False, True, False]\<rparr>) alice ''hello world''
      [Some diary_channel, Some tech_news_channel] (Inr ''u1'') 5
   = (Return (Some hello_post, None),
      example_p\<lparr>Database := example_tables\<lparr>post := [hello_row],
         postchannel := [\<lparr>postchannel_post_id = 1, postchannel_channel_id = 2\<rparr>]\<rparr>\<rparr>)"
  by code_simp

lemma example_Exec_post:
  "Exec (insert_post (User_Id alice) ''u1'' ''hello world'' 5)
     \<lparr>work = Database (example_p\<lparr>stmt_faults := [False, True, False]\<rparr>)\<rparr>
     (example_p\<lparr>stmt_faults := [False, True, False]\<rparr>
        \<lparr>open_tx := Suc (open_tx (example_p\<lparr>stmt_faults := [False, True, False]\<rparr>))\<rparr>)
   = (Inr 1, \<lparr>work = example_tables\<lparr>post := [hello_row]\<rparr>\<rparr>,
      example_p\<lparr>stmt_faults := [True, False], open_tx := 1\<rparr>)"
  by code_simp

theorem AddPost_commits_then_rereads_witness:
  "fatal_faults (example_p\<lparr>stmt_faults := [False, True, False]\<rparr>) = [] \<and>
   Exec (insert_post (User_Id alice) ''u1'' ''hello world'' 5)
     \<lparr>work = Database (example_p\<lparr>stmt_faults := [False, True, False]\<rparr>)\<rparr>
     (example_p\<lparr>stmt_faults := [False, True, False]\<rparr>
        \<lparr>open_tx := Suc (open_tx (example_p\<lparr>stmt_faults := [False, True, False]\<rparr>))\<rparr>)
   = (Inr 1, \<lparr>work = example_tables\<lparr>post := [hello_row]\<rparr>\<rparr>,
      example_p\<lparr>stmt_faults := [True, False], open_tx := 1\<rparr>) \<and>
   AddPost (example_p\<lparr>stmt_faults := [False, True, False]\<rparr>) alice ''hello world''
      [Some diary_channel, Some tech_news_channel] (Inr ''u1'') 5
   = (Return (Some hello_post, None),
      example_p\<lparr>Database := example_tables\<lparr>post := [hello_row],
         postchannel := [\<lparr>postchannel_post_id = 1, postchannel_channel_id = 2\<rparr>]\<rparr>\<rparr>) \<and>
   (\<exists>p1. AddPost (example_p\<lparr>stmt_faults := [False, True, False]\<rparr>) alice ''hello world''
           [Some diary_channel, Some tech_news_channel] (Inr ''u1'') 5 = GetPost p1 1 \<and>
         open_tx p1 = 0 \<and>
         postchannel (Database p1) = [join_row 1 tech_news_channel])"
proof -
  have pc: "postchannel (Database (example_p\<lparr>stmt_faults := [False, True, False]\<rparr>)) = []"
    "open_tx (example_p\<lparr>stmt_faults := [False, True, False]\<rparr>) = 0"
    by (simp_all add: example_p_def example_tables_def)
  have sf: "stmt_faults (example_p\<lparr>stmt_faults := [True, False], open_tx := 1\<rparr>) = [True, False]"
    by simp
  from AddPost_commits_then_rereads
         [where cs = "[diary_channel, tech_news_channel]",
          OF example_no_fatal example_Exec_post]
  have "\<exists>p1. AddPost (example_p\<lparr>stmt_faults := [False, True, False]\<rparr>) alice ''hello world''
           [Some diary_channel, Some tech_news_channel] (Inr ''u1'') 5 = GetPost p1 1 \<and>
         open_tx p1 = 0 \<and>
         postchannel (Database p1) = [join_row 1 tech_news_channel]"
    unfolding pc sf by auto
  with example_no_fatal [of "[False, True, False]"] example_Exec_post example_AddPost_join_fault
  show ?thesis by (intro conjI)
qed

text \<open>
  C2, as the claim states it for every channel list, fails: a channel list may hold nil
  pointers, as every list that \<open>AddChannels\<close> returns does, and \<open>c.Id\<close> then panics after
  the insert of the post row and before \<open>tx.Commit()\<close>, so that nothing is committed, the
  transaction stays open and no post is returned. And when \<open>uuid.NewV4\<close> returns an
  error, \<open>AddPost\<close> returns that error: no token, no insert and no commit.
\<close>

theorem AddPost_nil_channel_panics:
  "AddPost example_p alice ''hello world'' [Some diary_channel, None] (Inr ''u1'') 5
     = (Panic, example_p\<lparr>open_tx := 1\<rparr>) \<and>
   Database (snd (AddPost example_p alice ''hello world'' [Some diary_channel, None]
                    (Inr ''u1'') 5)) = Database example_p \<and>
   post (Database example_p) = [] \<and> postchannel (Database example_p) = [] \<and>
   AddPost example_p alice ''hello world'' [Some diary_channel] (Inl ErrUUID) 5
     = (Return (None, Some ErrUUID), example_p\<lparr>open_tx := 1\<rparr>)"
  by code_simp

subsection \<open>Transactions and statement errors\<close>

text \<open>An insert into the channel table loses no row, and a successful one adds its row.\<close>

lemma Exec_insert_channel_mono:
  assumes "Exec (insert_channel uid slug label) tx p = (r, tx1, p1)"
  shows "set (channel (work tx)) \<subseteq> set (channel (work tx1)) \<and>
         (\<forall>i. r = Inr i \<longrightarrow>
            \<lparr>channel_id = i, channel_user_id = uid, channel_slug = slug, channel_label = label\<rparr>
              \<in> set (channel (work tx1)))"
  using assms
  by (auto simp: Exec_def insert_channel_def Let_def
           split: prod.splits bool.splits sum.splits if_splits)

lemma AddChannels_loop_mono:
  "AddChannels_loop ToLower u names tx p created = (Return (cs, tx'), p') \<Longrightarrow>
   set (channel (work tx)) \<subseteq> set (channel (work tx'))"
proof (induction names arbitrary: tx p created)
  case Nil
  then show ?case by simp
next
  case (Cons label names)
  show ?case
  proof (cases "label = []")
    case True
    with Cons.prems have "AddChannels_loop ToLower u names tx p created = (Return (cs, tx'), p')"
      by simp
    then show ?thesis by (rule Cons.IH)
  next
    case False
    from Cons.prems False obtain r tx1 p1 c err p2 where
      e: "Exec (insert_channel (User_Id u) (slug_of ToLower label) label) tx p = (r, tx1, p1)" and
      g: "GetChannel p1 u (slug_of ToLower label) = (Return (c, err), p2)" and
      l: "AddChannels_loop ToLower u names tx1 p2 (if err \<noteq> None then created @ [c] else created)
           = (Return (cs, tx'), p')"
      by (rule AddChannels_loop_step)
    from Cons.IH [OF l] Exec_insert_channel_mono [OF e] show ?thesis by blast
  qed
qed

text \<open>A row that a successful insert of the loop added is in the transaction at the end.\<close>

lemma AddChannels_loop_keeps_insert:
  assumes "AddChannels_loop ToLower u (pre @ label # rest) tx p created = (Return (cs, tx'), p')"
    and "label \<noteq> []"
    and "AddChannels_loop ToLower u pre tx p created = (Return (cs0, tx0), q0)"
    and "Exec (insert_channel (User_Id u) (slug_of ToLower label) label) tx0 q0 = (Inr i, tx2, q2)"
  shows "\<lparr>channel_id = i, channel_user_id = User_Id u, channel_slug = slug_of ToLower label,
          channel_label = label\<rparr> \<in> set (channel (work tx'))"
proof -
  from assms(1,3) have "AddChannels_loop ToLower u (label # rest) tx0 q0 cs0 = (Return (cs, tx'), p')"
    by (simp add: AddChannels_loop_append)
  from this assms(2) obtain r tx1 p1 c err p2 where
    e: "Exec (insert_channel (User_Id u) (slug_of ToLower label) label) tx0 q0 = (r, tx1, p1)" and
    g: "GetChannel p1 u (slug_of ToLower label) = (Return (c, err), p2)" and
    l: "AddChannels_loop ToLower u rest tx1 p2 (if err \<noteq> None then cs0 @ [c] else cs0)
           = (Return (cs, tx'), p')"
    by (rule AddChannels_loop_step)
  from e assms(4) have "r = Inr i" "tx1 = tx2" by simp_all
  with Exec_insert_channel_mono [OF e]
  have "\<lparr>channel_id = i, channel_user_id = User_Id u, channel_slug = slug_of ToLower label,
          channel_label = label\<rparr> \<in> set (channel (work tx1))" by simp
  with AddChannels_loop_mono [OF l] show ?thesis by blast
qed

text \<open>
  C3, as the code has it. When \<open>Begin\<close> and the \<open>Prepare\<close> calls succeed:
  \<^item> \<open>CreateUser\<close> returns with a nil error and has committed the transaction as its
    insert left it, whatever the insert returned;
  \<^item> \<open>AddChannels\<close> returns with a nil error and has committed its transaction: every row
    that an insert of its loop added is in the committed table, whatever the inserts and
    lookups after it returned;
  \<^item> \<open>AddPost\<close>, when the insert of the post row succeeded and no channel of its list is
    nil, has committed the post row and the join rows whose inserts did not fail,
    whatever the other join inserts returned;
  \<^item> \<open>AddPost\<close>, when the insert of the post row succeeded and a channel of its list is
    nil, panics: the committed tables are as they were and the transaction is left open;
  \<^item> \<open>AddPost\<close>, when the insert of the post row fails, returns the error of the
    insert, and the committed tables are as they were.

  In the first three cases no transaction is left open.
\<close>

theorem commits_despite_statement_errors:
  assumes "fatal_faults p = []"
  shows
   "(\<exists>r tx1 p1 usr p'.
       Exec (insert_users username (SetPassword password)) \<lparr>work = Database p\<rparr>
            (p\<lparr>open_tx := Suc (open_tx p)\<rparr>) = (r, tx1, p1) \<and>
       CreateUser SetPassword p username password = (Return (usr, None), p') \<and>
       Database p' = work tx1 \<and> open_tx p' = open_tx p) \<and>
    (\<exists>created p'.
       AddChannels ToLower p u names = (Return (created, None), p') \<and> open_tx p' = open_tx p \<and>
       (\<forall>pre label rest cs0 tx0 q0 i tx2 q2.
          names = pre @ label # rest \<and> label \<noteq> [] \<and>
          AddChannels_loop ToLower u pre \<lparr>work = Database p\<rparr> (p\<lparr>open_tx := Suc (open_tx p)\<rparr>) []
            = (Return (cs0, tx0), q0) \<and>
          Exec (insert_channel (User_Id u) (slug_of ToLower label) label) tx0 q0 = (Inr i, tx2, q2) \<longrightarrow>
          \<lparr>channel_id = i, channel_user_id = User_Id u, channel_slug = slug_of ToLower label,
           channel_label = label\<rparr> \<in> set (channel (Database p')))) \<and>
    (\<forall>uu i tx1 q.
       Exec (insert_post (User_Id u) uu body now) \<lparr>work = Database p\<rparr>
            (p\<lparr>open_tx := Suc (open_tx p)\<rparr>) = (Inr i, tx1, q) \<longrightarrow>
       (\<exists>out p'.
          AddPost p u body (map Some cs) (Inr uu) now = (out, p') \<and> open_tx p' = open_tx p \<and>
          post (Database p') = post (Database p) @
            [\<lparr>post_id = i, post_uuid = uu, post_user_id = User_Id u, post_body = body,
              post_posted = now\<rparr>] \<and>
          postchannel (Database p') = postchannel (Database p) @
            map (join_row i) (surviving cs (stmt_faults q)))) \<and>
    (\<forall>uu i tx1 q channels.
       Exec (insert_post (User_Id u) uu body now) \<lparr>work = Database p\<rparr>
            (p\<lparr>open_tx := Suc (open_tx p)\<rparr>) = (Inr i, tx1, q) \<and> None \<in> set channels \<longrightarrow>
       (\<exists>p'. AddPost p u body channels (Inr uu) now = (Panic, p') \<and>
             Database p' = Database p \<and> open_tx p' = Suc (open_tx p))) \<and>
    (\<forall>uu e tx1 q channels.
       Exec (insert_post (User_Id u) uu body now) \<lparr>work = Database p\<rparr>
            (p\<lparr>open_tx := Suc (open_tx p)\<rparr>) = (Inl e, tx1, q) \<longrightarrow>
       AddPost p u body channels (Inr uu) now = (Return (None, Some e), q) \<and>
       Database q = Database p)"
proof (intro conjI)
  from CreateUser_no_fatal [OF assms, of username SetPassword password]
  show "\<exists>r tx1 p1 usr p'.
       Exec (insert_users username (SetPassword password)) \<lparr>work = Database p\<rparr>
            (p\<lparr>open_tx := Suc (open_tx p)\<rparr>) = (r, tx1, p1) \<and>
       CreateUser SetPassword p username password = (Return (usr, None), p') \<and>
       Database p' = work tx1 \<and> open_tx p' = open_tx p"
    by blast
next
  define p0 where "p0 = p\<lparr>open_tx := Suc (open_tx p)\<rparr>"
  from AddChannels_no_fatal [where ToLower = ToLower and u = u and names = names, OF assms]
  obtain created tx1 p3 where
    l: "AddChannels_loop ToLower u names \<lparr>work = Database p\<rparr> p0 [] = (Return (created, tx1), p3)" and
    a: "AddChannels ToLower p u names = (Return (created, None), Commit tx1 p3)" and
    o3: "open_tx p3 = Suc (open_tx p)"
    unfolding p0_def by blast
  have "open_tx (Commit tx1 p3) = open_tx p" using o3 by (simp add: Commit_def)
  moreover have "\<lparr>channel_id = i, channel_user_id = User_Id u, channel_slug = slug_of ToLower label,
           channel_label = label\<rparr> \<in> set (channel (Database (Commit tx1 p3)))"
    if "names = pre @ label # rest" "label \<noteq> []"
      "AddChannels_loop ToLower u pre \<lparr>work = Database p\<rparr> p0 [] = (Return (cs0, tx0), q0)"
      "Exec (insert_channel (User_Id u) (slug_of ToLower label) label) tx0 q0 = (Inr i, tx2, q2)"
    for pre label rest cs0 tx0 q0 i tx2 q2
    using AddChannels_loop_keeps_insert [OF l [unfolded that(1)] that(2,3,4)]
    by (simp add: Commit_def)
  ultimately show "\<exists>created p'.
       AddChannels ToLower p u names = (Return (created, None), p') \<and> open_tx p' = open_tx p \<and>
       (\<forall>pre label rest cs0 tx0 q0 i tx2 q2.
          names = pre @ label # rest \<and> label \<noteq> [] \<and>
          AddChannels_loop ToLower u pre \<lparr>work = Database p\<rparr> (p\<lparr>open_tx := Suc (open_tx p)\<rparr>) []
            = (Return (cs0, tx0), q0) \<and>
          Exec (insert_channel (User_Id u) (slug_of ToLower label) label) tx0 q0 = (Inr i, tx2, q2) \<longrightarrow>
          \<lparr>channel_id = i, channel_user_id = User_Id u, channel_slug = slug_of ToLower label,
           channel_label = label\<rparr> \<in> set (channel (Database p')))"
    using a unfolding p0_def by blast
next
  show "\<forall>uu i tx1 q.
       Exec (insert_post (User_Id u) uu body now) \<lparr>work = Database p\<rparr>
            (p\<lparr>open_tx := Suc (open_tx p)\<rparr>) = (Inr i, tx1, q) \<longrightarrow>
       (\<exists>out p'.
          AddPost p u body (map Some cs) (Inr uu) now = (out, p') \<and> open_tx p' = open_tx p \<and>
          post (Database p') = post (Database p) @
            [\<lparr>post_id = i, post_uuid = uu, post_user_id = User_Id u, post_body = body,
              post_posted = now\<rparr>] \<and>
          postchannel (Database p') = postchannel (Database p) @
            map (join_row i) (surviving cs (stmt_faults q)))"
  proof (intro allI impI)
    fix uu i tx1 q
    assume e: "Exec (insert_post (User_Id u) uu body now) \<lparr>work = Database p\<rparr>
            (p\<lparr>open_tx := Suc (open_tx p)\<rparr>) = (Inr i, tx1, q)"
    define p1 where "p1 = q\<lparr>Database := (Database p)
                       \<lparr>post := post (Database p) @
                          [\<lparr>post_id = i, post_uuid = uu, post_user_id = User_Id u,
                            post_body = body, post_posted = now\<rparr>],
                        postchannel := postchannel (Database p) @
                          map (join_row i) (surviving cs (stmt_faults q))\<rparr>,
                      open_tx := open_tx p,
                      stmt_faults := drop (length cs) (stmt_faults q)\<rparr>"
    have ap: "AddPost p u body (map Some cs) (Inr uu) now = GetPost p1 i"
      unfolding p1_def by (rule AddPost_closed [OF assms e])
    obtain out p' where g: "GetPost p1 i = (out, p')" by (cases "GetPost p1 i") auto
    from GetPost_state [OF g]
    have "open_tx p' = open_tx p"
      "post (Database p') = post (Database p) @
            [\<lparr>post_id = i, post_uuid = uu, post_user_id = User_Id u, post_body = body,
              post_posted = now\<rparr>]"
      "postchannel (Database p') = postchannel (Database p) @
            map (join_row i) (surviving cs (stmt_faults q))"
      by (simp_all add: p1_def)
    with ap g show "\<exists>out p'.
          AddPost p u body (map Some cs) (Inr uu) now = (out, p') \<and> open_tx p' = open_tx p \<and>
          post (Database p') = post (Database p) @
            [\<lparr>post_id = i, post_uuid = uu, post_user_id = User_Id u, post_body = body,
              post_posted = now\<rparr>] \<and>
          postchannel (Database p') = postchannel (Database p) @
            map (join_row i) (surviving cs (stmt_faults q))"
      by auto
  qed
next
  show "\<forall>uu i tx1 q channels.
       Exec (insert_post (User_Id u) uu body now) \<lparr>work = Database p\<rparr>
            (p\<lparr>open_tx := Suc (open_tx p)\<rparr>) = (Inr i, tx1, q) \<and> None \<in> set channels \<longrightarrow>
       (\<exists>p'. AddPost p u body channels (Inr uu) now = (Panic, p') \<and>
             Database p' = Database p \<and> open_tx p' = Suc (open_tx p))"
    using AddPost_nil_channel [OF assms] by blast
next
  show "\<forall>uu e tx1 q channels.
       Exec (insert_post (User_Id u) uu body now) \<lparr>work = Database p\<rparr>
            (p\<lparr>open_tx := Suc (open_tx p)\<rparr>) = (Inl e, tx1, q) \<longrightarrow>
       AddPost p u body channels (Inr uu) now = (Return (None, Some e), q) \<and>
       Database q = Database p"
  proof (intro allI impI)
    fix uu e tx1 q channels
    define p0 where "p0 = p\<lparr>open_tx := Suc (open_tx p)\<rparr>"
    assume "Exec (insert_post (User_Id u) uu body now) \<lparr>work = Database p\<rparr>
            (p\<lparr>open_tx := Suc (open_tx p)\<rparr>) = (Inl e, tx1, q)"
    then have e: "Exec (insert_post (User_Id u) uu body now) \<lparr>work = Database p\<rparr> p0
                    = (Inl e, tx1, q)"
      by (simp add: p0_def)
    have nf0: "fatal_faults p0 = []" using assms by (simp add: p0_def)
    from Exec_state [OF e] have "Database q = Database p" by (simp add: p0_def)
    moreover from assms nf0 e
    have "AddPost p u body channels (Inr uu) now = (Return (None, Some e), q)"
      by (simp add: AddPost_def p0_def [symmetric])
    ultimately show "AddPost p u body channels (Inr uu) now = (Return (None, Some e), q) \<and>
       Database q = Database p" by blast
  qed
qed

text \<open>
  On the example the driver fails at the third statement call. In \<open>AddChannels\<close> that is
  the insert for News: the row of Tech News, inserted before, is committed all the same.
  In \<open>AddPost\<close> it is the second join insert: the post and the first join row are
  committed; with a nil channel after Diary, \<open>AddPost\<close> panics instead. When the driver
  fails at the first statement call, the insert of the post row, \<open>AddPost\<close> returns that
  error.
\<close>

lemma example_tx_loop_Nil:
  "AddChannels_loop ascii_ToLower alice [] \<lparr>work = Database (example_p\<lparr>stmt_faults := [False, False, True]\<rparr>)\<rparr>
     (example_p\<lparr>stmt_faults := [False, False, True]\<rparr>
        \<lparr>open_tx := Suc (open_tx (example_p\<lparr>stmt_faults := [False, False, True]\<rparr>))\<rparr>) []
   = (Return ([], \<lparr>work = Database (example_p\<lparr>stmt_faults := [False, False, True]\<rparr>)\<rparr>),
      example_p\<lparr>stmt_faults := [False, False, True]\<rparr>
        \<lparr>open_tx := Suc (open_tx (example_p\<lparr>stmt_faults := [False, False, True]\<rparr>))\<rparr>)"
  by simp

lemma example_tx_Exec:
  "Exec (insert_channel (User_Id alice) (slug_of ascii_ToLower ''Tech News'') ''Tech News'')
     \<lparr>work = Database (example_p\<lparr>stmt_faults := [False, False, True]\<rparr>)\<rparr>
     (example_p\<lparr>stmt_faults := [False, False, True]\<rparr>
        \<lparr>open_tx := Suc (open_tx (example_p\<lparr>stmt_faults := [False, False, True]\<rparr>))\<rparr>)
   = (Inr 2, \<lparr>work = example_tables\<lparr>channel := channel example_tables @ [tech_news_row]\<rparr>\<rparr>,
      example_p\<lparr>stmt_faults := [False, True], open_tx := 1\<rparr>)"
  by code_simp

lemma example_tx_AddChannels:
  "AddChannels ascii_ToLower (example_p\<lparr>stmt_faults := [False, False, True]\<rparr>) alice [''Tech News'', ''News'']
   = (Return ([None, None], None),
      example_p\<lparr>Database := example_tables\<lparr>channel := channel example_tables @ [tech_news_row]\<rparr>\<rparr>)"
  by code_simp

lemma example_tx_AddPost:
  "AddPost (example_p\<lparr>stmt_faults := [False, False, True]\<rparr>) alice ''hello world''
      [Some diary_channel, Some tech_news_channel] (Inr ''u1'') 5
   = (Return (Some hello_post, None),
      example_p\<lparr>Database := example_tables\<lparr>post := [hello_row],
         postchannel := [\<lparr>postchannel_post_id = 1, postchannel_channel_id = 1\<rparr>]\<rparr>\<rparr>)"
  by code_simp

lemma example_tx_row:
  "\<lparr>channel_id = 2, channel_user_id = User_Id alice, channel_slug = slug_of ascii_ToLower ''Tech News'',
    channel_label = ''Tech News''\<rparr> = tech_news_row"
  by code_simp

lemma example_tx_Exec_post_fails:
  "Exec (insert_post (User_Id alice) ''u1'' ''hello world'' 5)
     \<lparr>work = Database (example_p\<lparr>stmt_faults := [True]\<rparr>)\<rparr>
     (example_p\<lparr>stmt_faults := [True]\<rparr>
        \<lparr>open_tx := Suc (open_tx (example_p\<lparr>stmt_faults := [True]\<rparr>))\<rparr>)
   = (Inl ErrDriver, \<lparr>work = example_tables\<rparr>, example_p\<lparr>open_tx := 1\<rparr>)"
  by code_simp

lemma example_tx_Exec_post:
  "Exec (insert_post (User_Id alice) ''u1'' ''hello world'' 5)
     \<lparr>work = Database (example_p\<lparr>stmt_faults := [False, False, True]\<rparr>)\<rparr>
     (example_p\<lparr>stmt_faults := [False, False, True]\<rparr>
        \<lparr>open_tx := Suc (open_tx (example_p\<lparr>stmt_faults := [False, False, True]\<rparr>))\<rparr>)
   = (Inr 1, \<lparr>work = example_tables\<lparr>post := [hello_row]\<rparr>\<rparr>,
      example_p\<lparr>stmt_faults := [False, True], open_tx := 1\<rparr>)"
  by code_simp

theorem commits_despite_statement_errors_witness:
  "fatal_faults (example_p\<lparr>stmt_faults := [False, False, True]\<rparr>) = [] \<and>
   AddChannels ascii_ToLower (example_p\<lparr>stmt_faults := [False, False, True]\<rparr>) alice [''Tech News'', ''News'']
     = (Return ([None, None], None),
        example_p\<lparr>Database := example_tables\<lparr>channel := channel example_tables @ [tech_news_row]\<rparr>\<rparr>) \<and>
   Exec (insert_channel (User_Id alice) (slug_of ascii_ToLower ''Tech News'') ''Tech News'')
     \<lparr>work = Database (example_p\<lparr>stmt_faults := [False, False, True]\<rparr>)\<rparr>
     (example_p\<lparr>stmt_faults := [False, False, True]\<rparr>
        \<lparr>open_tx := Suc (open_tx (example_p\<lparr>stmt_faults := [False, False, True]\<rparr>))\<rparr>)
     = (Inr 2, \<lparr>work = example_tables\<lparr>channel := channel example_tables @ [tech_news_row]\<rparr>\<rparr>,
        example_p\<lparr>stmt_faults := [False, True], open_tx := 1\<rparr>) \<and>
   tech_news_row \<in> set (channel (Database (snd
       (AddChannels ascii_ToLower (example_p\<lparr>stmt_faults := [False, False, True]\<rparr>) alice
          [''Tech News'', ''News''])))) \<and>
   Exec (insert_post (User_Id alice) ''u1'' ''hello world'' 5)
     \<lparr>work = Database (example_p\<lparr>stmt_faults := [False, False, True]\<rparr>)\<rparr>
     (example_p\<lparr>stmt_faults := [False, False, True]\<rparr>
        \<lparr>open_tx := Suc (open_tx (example_p\<lparr>stmt_faults := [False, False, True]\<rparr>))\<rparr>)
     = (Inr 1, \<lparr>work = example_tables\<lparr>post := [hello_row]\<rparr>\<rparr>,
        example_p\<lparr>stmt_faults := [False, True], open_tx := 1\<rparr>) \<and>
   AddPost (example_p\<lparr>stmt_faults := [False, False, True]\<rparr>) alice ''hello world''
      [Some diary_channel, Some tech_news_channel] (Inr ''u1'') 5
     = (Return (Some hello_post, None),
        example_p\<lparr>Database := example_tables\<lparr>post := [hello_row],
           postchannel := [\<lparr>postchannel_post_id = 1, postchannel_channel_id = 1\<rparr>]\<rparr>\<rparr>) \<and>
   (\<exists>out p'. AddPost (example_p\<lparr>stmt_faults := [False, False, True]\<rparr>) alice ''hello world''
                [Some diary_channel, Some tech_news_channel] (Inr ''u1'') 5 = (out, p') \<and>
              postchannel (Database p') = [join_row 1 diary_channel]) \<and>
   None \<in> set [Some diary_channel, None] \<and>
   fst (AddPost (example_p\<lparr>stmt_faults := [False, False, True]\<rparr>) alice ''hello world''
          [Some diary_channel, None] (Inr ''u1'') 5) = Panic \<and>
   fatal_faults (example_p\<lparr>stmt_faults := [True]\<rparr>) = [] \<and>
   Exec (insert_post (User_Id alice) ''u1'' ''hello world'' 5)
     \<lparr>work = Database (example_p\<lparr>stmt_faults := [True]\<rparr>)\<rparr>
     (example_p\<lparr>stmt_faults := [True]\<rparr>
        \<lparr>open_tx := Suc (open_tx (example_p\<lparr>stmt_faults := [True]\<rparr>))\<rparr>)
     = (Inl ErrDriver, \<lparr>work = example_tables\<rparr>, example_p\<lparr>open_tx := 1\<rparr>) \<and>
   fst (AddPost (example_p\<lparr>stmt_faults := [True]\<rparr>) alice ''hello world''
          [Some diary_channel] (Inr ''u1'') 5) = Return (None, Some ErrDriver)"
proof -
  let ?p = "example_p\<lparr>stmt_faults := [False, False, True]\<rparr>"
  note c = commits_despite_statement_errors
             [where ToLower = ascii_ToLower and u = alice and names = "[''Tech News'', ''News'']"
                and body = "''hello world''" and cs = "[diary_channel, tech_news_channel]"
                and now = 5 and username = "''bob''" and SetPassword = "\<lambda>s. ''h2''"
                and password = "''pw''",
              OF example_no_fatal [of "[False, False, True]"]]
  from c [THEN conjunct2, THEN conjunct1] obtain created p' where
    a: "AddChannels ascii_ToLower ?p alice [''Tech News'', ''News''] = (Return (created, None), p')" and
    k: "\<forall>pre label rest cs0 tx0 q0 i tx2 q2.
          [''Tech News'', ''News''] = pre @ label # rest \<and> label \<noteq> [] \<and>
          AddChannels_loop ascii_ToLower alice pre \<lparr>work = Database ?p\<rparr> (?p\<lparr>open_tx := Suc (open_tx ?p)\<rparr>) []
            = (Return (cs0, tx0), q0) \<and>
          Exec (insert_channel (User_Id alice) (slug_of ascii_ToLower label) label) tx0 q0 = (Inr i, tx2, q2) \<longrightarrow>
          \<lparr>channel_id = i, channel_user_id = User_Id alice, channel_slug = slug_of ascii_ToLower label,
           channel_label = label\<rparr> \<in> set (channel (Database p'))"
    by blast
  have s: "[''Tech News'', ''News''] = [] @ ''Tech News'' # [''News''] \<and> ''Tech News'' \<noteq> []"
    by simp
  from k s example_tx_loop_Nil example_tx_Exec
  have "\<lparr>channel_id = 2, channel_user_id = User_Id alice, channel_slug = slug_of ascii_ToLower ''Tech News'',
          channel_label = ''Tech News''\<rparr> \<in> set (channel (Database p'))"
    by blast
  with a have row: "tech_news_row \<in> set (channel (Database (snd
       (AddChannels ascii_ToLower ?p alice [''Tech News'', ''News'']))))"
    by (simp add: example_tx_row)
  have pc: "postchannel (Database ?p) = []" by (simp add: example_p_def example_tables_def)
  have sf: "stmt_faults (example_p\<lparr>stmt_faults := [False, True], open_tx := 1\<rparr>) = [False, True]"
    by simp
  from c [THEN conjunct2, THEN conjunct2, THEN conjunct1, rule_format, OF example_tx_Exec_post]
  have "\<exists>out p'. AddPost ?p alice ''hello world''
                (map Some [diary_channel, tech_news_channel]) (Inr ''u1'') 5 = (out, p') \<and>
              postchannel (Database p') = postchannel (Database ?p) @
                map (join_row 1) (surviving [diary_channel, tech_news_channel]
                  (stmt_faults (example_p\<lparr>stmt_faults := [False, True], open_tx := 1\<rparr>)))"
    by blast
  then have joins: "\<exists>out p'. AddPost ?p alice ''hello world''
                [Some diary_channel, Some tech_news_channel] (Inr ''u1'') 5 = (out, p') \<and>
              postchannel (Database p') = [join_row 1 diary_channel]"
    unfolding pc sf by simp
  have n: "None \<in> set [Some diary_channel, None]" by simp
  from c [THEN conjunct2, THEN conjunct2, THEN conjunct2, THEN conjunct1, rule_format,
          OF conjI [OF example_tx_Exec_post n]]
  have "\<exists>p'. AddPost ?p alice ''hello world'' [Some diary_channel, None] (Inr ''u1'') 5
               = (Panic, p')"
    by blast
  then have panics: "fst (AddPost ?p alice ''hello world'' [Some diary_channel, None]
                            (Inr ''u1'') 5) = Panic"
    by auto
  note d = commits_despite_statement_errors
             [where ToLower = ascii_ToLower and u = alice and names = "[]"
                and body = "''hello world''" and cs = "[]"
                and now = 5 and username = "''bob''" and SetPassword = "\<lambda>s. ''h2''"
                and password = "''pw''",
              OF example_no_fatal [of "[True]"]]
  from d [THEN conjunct2, THEN conjunct2, THEN conjunct2, THEN conjunct2, rule_format,
          OF example_tx_Exec_post_fails]
  have "AddPost (example_p\<lparr>stmt_faults := [True]\<rparr>) alice ''hello world''
          [Some diary_channel] (Inr ''u1'') 5 = (Return (None, Some ErrDriver), example_p\<lparr>open_tx := 1\<rparr>)"
    by blast
  then have fails: "fst (AddPost (example_p\<lparr>stmt_faults := [True]\<rparr>) alice ''hello world''
          [Some diary_channel] (Inr ''u1'') 5) = Return (None, Some ErrDriver)"
    by simp
  from example_no_fatal [of "[False, False, True]"] example_tx_AddChannels example_tx_Exec row
    example_tx_Exec_post example_tx_AddPost joins n panics
    example_no_fatal [of "[True]"] example_tx_Exec_post_fails fails
  show ?thesis by (intro conjI)
qed

text \<open>
  C3, as the claim states it, fails for \<open>AddPost\<close>: when the insert of the post row
  fails, \<open>AddPost\<close> returns that error at once, and the transaction it began is neither
  committed nor rolled back.
\<close>

theorem AddPost_insert_error_leaves_transaction_open:
  "open_tx (example_p\<lparr>stmt_faults := [True]\<rparr>) = 0 \<and>
   AddPost (example_p\<lparr>stmt_faults := [True]\<rparr>) alice ''hello world'' [] (Inr ''u1'') 5
     = (Return (None, Some ErrDriver), example_p\<lparr>open_tx := 1\<rparr>) \<and>
   open_tx (snd (AddPost (example_p\<lparr>stmt_faults := [True]\<rparr>) alice ''hello world'' []
                   (Inr ''u1'') 5)) = 1"
  by code_simp


end
